theory Spec2Isabelle
  imports Main
begin

section \<open>JavaScript strings and regular expressions\<close>

text \<open>
  A JavaScript string is a sequence of 16-bit code units. Commit ids, git arguments and
  failure messages are modelled as a \<^typ>\<open>string\<close>, one \<^typ>\<open>char\<close> for each code unit, which
  covers the strings whose code units lie below 256; every literal of the source is ASCII.
  The path functions, which lower-case whole file names, are written for lists over any type
  of code unit (see \<open>splitPath_on\<close> below).

  A regular expression literal of the source is a value of \<open>regexp\<close>. The lazy
  quantifiers \<^verbatim>\<open>*?\<close> and \<^verbatim>\<open>??\<close> of the source choose which match is found first, not whether
  one exists, and \<^verbatim>\<open>RegExp.test\<close> only reports existence: they are modelled by \<open>Star\<close>
  and \<open>Opt\<close>. \<open>Fail\<close> matches nothing; it arises from derivatives only.
\<close>

datatype regexp =
    Fail
  | Eps
  | Chr char
  | Cls "(char \<times> char) list"
  | Dot
  | Seq regexp regexp
  | Alt regexp regexp
  | Star regexp

text \<open>A character class \<^verbatim>\<open>[a-bc-d]\<close> is the list of its inclusive ranges.\<close>

definition in_range :: "char \<Rightarrow> char \<times> char \<Rightarrow> bool" where
  "in_range c r = ((of_char (fst r) :: nat) \<le> of_char c \<and> (of_char c :: nat) \<le> of_char (snd r))"

definition in_cls :: "(char \<times> char) list \<Rightarrow> char \<Rightarrow> bool" where
  "in_cls rs c = list_ex (in_range c) rs"

text \<open>Without the \<^verbatim>\<open>s\<close> flag, \<^verbatim>\<open>.\<close> matches every code unit but a line terminator.\<close>

definition line_terminator :: "char \<Rightarrow> bool" where
  "line_terminator c = (c = CHR 0x0A \<or> c = CHR 0x0D)"

fun nullable :: "regexp \<Rightarrow> bool" where
  "nullable Fail = False"
| "nullable Eps = True"
| "nullable (Chr a) = False"
| "nullable (Cls rs) = False"
| "nullable Dot = False"
| "nullable (Seq r s) = (nullable r \<and> nullable s)"
| "nullable (Alt r s) = (nullable r \<or> nullable s)"
| "nullable (Star r) = True"

fun deriv :: "char \<Rightarrow> regexp \<Rightarrow> regexp" where
  "deriv c Fail = Fail"
| "deriv c Eps = Fail"
| "deriv c (Chr a) = (if c = a then Eps else Fail)"
| "deriv c (Cls rs) = (if in_cls rs c then Eps else Fail)"
| "deriv c Dot = (if line_terminator c then Fail else Eps)"
| "deriv c (Seq r s) =
     (if nullable r then Alt (Seq (deriv c r) s) (deriv c s) else Seq (deriv c r) s)"
| "deriv c (Alt r s) = Alt (deriv c r) (deriv c s)"
| "deriv c (Star r) = Seq (deriv c r) (Star r)"

text \<open>The whole string matches (a pattern written \<^verbatim>\<open>/^...$/\<close>).\<close>

fun matches :: "regexp \<Rightarrow> string \<Rightarrow> bool" where
  "matches r [] = nullable r"
| "matches r (c # cs) = matches (deriv c r) cs"

text \<open>Some prefix of the string matches.\<close>

fun matches_prefix :: "regexp \<Rightarrow> string \<Rightarrow> bool" where
  "matches_prefix r [] = nullable r"
| "matches_prefix r (c # cs) = (nullable r \<or> matches_prefix (deriv c r) cs)"

text \<open>A match starts at some index (a pattern without anchors).\<close>

fun search :: "regexp \<Rightarrow> string \<Rightarrow> bool" where
  "search r [] = nullable r"
| "search r (c # cs) = (matches_prefix r (c # cs) \<or> search r cs)"

definition Opt :: "regexp \<Rightarrow> regexp" where
  "Opt r = Alt r Eps"

fun Rep :: "nat \<Rightarrow> regexp \<Rightarrow> regexp" where
  "Rep 0 r = Eps"
| "Rep (Suc n) r = Seq r (Rep n r)"

fun Str :: "string \<Rightarrow> regexp" where
  "Str [] = Eps"
| "Str (c # cs) = Seq (Chr c) (Str cs)"

datatype js_regex = Anchored regexp | Unanchored regexp

fun test :: "js_regex \<Rightarrow> string \<Rightarrow> bool" where
  "test (Anchored r) s = matches r s"
| "test (Unanchored r) s = search r s"

subsection \<open>The words of a regular expression\<close>

text \<open>
  The reference semantics, against which the matcher above is proved correct: the set of
  strings a pattern denotes.
\<close>

definition conc :: "string set \<Rightarrow> string set \<Rightarrow> string set" where
  "conc A B = {u @ v | u v. u \<in> A \<and> v \<in> B}"

inductive_set star :: "string set \<Rightarrow> string set" for A :: "string set" where
  star_nil: "[] \<in> star A"
| star_app: "u \<in> A \<Longrightarrow> v \<in> star A \<Longrightarrow> u @ v \<in> star A"

fun lang :: "regexp \<Rightarrow> string set" where
  "lang Fail = {}"
| "lang Eps = {[]}"
| "lang (Chr a) = {[a]}"
| "lang (Cls rs) = {[c] | c. in_cls rs c}"
| "lang Dot = {[c] | c. \<not> line_terminator c}"
| "lang (Seq r s) = conc (lang r) (lang s)"
| "lang (Alt r s) = lang r \<union> lang s"
| "lang (Star r) = star (lang r)"

subsection \<open>String methods\<close>

text \<open>\<^verbatim>\<open>s.indexOf(c)\<close>: the first index of \<open>c\<close>, or \<open>-1\<close>.\<close>

fun indexOf_from :: "nat \<Rightarrow> string \<Rightarrow> char \<Rightarrow> int" where
  "indexOf_from i [] c = - 1"
| "indexOf_from i (x # xs) c = (if x = c then int i else indexOf_from (Suc i) xs c)"

definition indexOf :: "string \<Rightarrow> char \<Rightarrow> int" where
  "indexOf s c = indexOf_from 0 s c"

text \<open>\<^verbatim>\<open>s.substring(i, j)\<close> and \<^verbatim>\<open>s.substring(i)\<close> for indices that are not negative.\<close>

definition substring2 :: "string \<Rightarrow> nat \<Rightarrow> nat \<Rightarrow> string" where
  "substring2 s i j = take (max i j - min i j) (drop (min i j) s)"

definition substring1 :: "'a list \<Rightarrow> nat \<Rightarrow> 'a list" where
  "substring1 s i = drop i s"

definition startsWith :: "'a list \<Rightarrow> 'a list \<Rightarrow> bool" where
  "startsWith s p = (take (length p) s = p)"

definition endsWith :: "'a list \<Rightarrow> 'a list \<Rightarrow> bool" where
  "endsWith s p = (length p \<le> length s \<and> drop (length s - length p) s = p)"

text \<open>
  \<^verbatim>\<open>s.toLowerCase()\<close> on code units below 256: the capital letters there are A to Z
  (0x41 to 0x5A) and the Latin-1 capitals 0xC0 to 0xDE without the multiplication sign 0xD7;
  each has its small letter 32 places further on, and every other code unit stays. On this
  range lower-casing keeps the length of a string; beyond it, it need not.
\<close>

definition lower_char :: "char \<Rightarrow> char" where
  "lower_char c =
     (if in_range c (CHR ''A'', CHR ''Z'') \<or> in_range c (CHR 0xC0, CHR 0xD6)
         \<or> in_range c (CHR 0xD8, CHR 0xDE)
      then char_of (of_char c + (32 :: nat)) else c)"

definition toLowerCase :: "string \<Rightarrow> string" where
  "toLowerCase s = map lower_char s"

text \<open>The string \<open>p\<close> occurs in \<open>s\<close>.\<close>

definition occurs_in :: "string \<Rightarrow> string \<Rightarrow> bool" where
  "occurs_in p s = (\<exists>u v. s = u @ p @ v)"

fun join :: "string \<Rightarrow> string list \<Rightarrow> string" where
  "join sep [] = []"
| "join sep [x] = x"
| "join sep (x # y # ys) = x @ sep @ join sep (y # ys)"

section \<open>Sentinel and identity utilities (class Git)\<close>

text \<open>
  \<^verbatim>\<open>static shaRegex = /^[0-9a-f]{40}(\^[0-9]*?)??( -)?$/;\<close>
  \<^verbatim>\<open>static stagedUncommittedRegex = /^[0]{40}(\^[0-9]*?)??:$/;\<close>
  \<^verbatim>\<open>static uncommittedRegex = /^[0]{40}(\^[0-9]*?)??:??$/;\<close>
\<close>

definition shaRegex :: js_regex where
  "shaRegex = Anchored
     (Seq (Rep 40 (Cls [(CHR ''0'', CHR ''9''), (CHR ''a'', CHR ''f'')]))
     (Seq (Opt (Seq (Chr (CHR ''^'')) (Star (Cls [(CHR ''0'', CHR ''9'')]))))
          (Opt (Str '' -''))))"

definition stagedUncommittedRegex :: js_regex where
  "stagedUncommittedRegex = Anchored
     (Seq (Rep 40 (Cls [(CHR ''0'', CHR ''0'')]))
     (Seq (Opt (Seq (Chr (CHR ''^'')) (Star (Cls [(CHR ''0'', CHR ''9'')]))))
          (Chr (CHR '':''))))"

definition stagedUncommittedSha :: string where
  "stagedUncommittedSha = ''0000000000000000000000000000000000000000:''"

definition uncommittedRegex :: js_regex where
  "uncommittedRegex = Anchored
     (Seq (Rep 40 (Cls [(CHR ''0'', CHR ''0'')]))
     (Seq (Opt (Seq (Chr (CHR ''^'')) (Star (Cls [(CHR ''0'', CHR ''9'')]))))
          (Opt (Chr (CHR '':'')))))"

definition uncommittedSha :: string where
  "uncommittedSha = ''0000000000000000000000000000000000000000''"

definition isSha :: "string \<Rightarrow> bool" where
  "isSha sha = test shaRegex sha"

definition isStagedUncommitted :: "string \<Rightarrow> bool" where
  "isStagedUncommitted sha = test stagedUncommittedRegex sha"

definition isUncommitted :: "string \<Rightarrow> bool" where
  "isUncommitted sha = test uncommittedRegex sha"

text \<open>The strings the three patterns accept, part by part.\<close>

definition hex40 :: "string set" where
  "hex40 = {w. length w = 40 \<and> (\<forall>c \<in> set w. c \<in> set ''0123456789abcdef'')}"

definition zero40 :: "string set" where
  "zero40 = {w. length w = 40 \<and> (\<forall>c \<in> set w. c = CHR ''0'')}"

definition caret_suffix :: "string set" where
  "caret_suffix = insert [] {CHR ''^'' # ds | ds. \<forall>c \<in> set ds. c \<in> set ''0123456789''}"

text \<open>
  The functions on paths are written for strings over any type \<open>'u\<close> of code unit: \<open>u\<close>
  gives the code unit of an ASCII character of the source, and \<open>lower\<close> is the runtime's
  \<^verbatim>\<open>String.prototype.toLowerCase\<close>. The instances without suffix are the ones on \<^typ>\<open>string\<close>,
  with \<open>toLowerCase\<close> above.
\<close>

text \<open>\<^verbatim>\<open>fileName && fileName.replace(/\\/g, '/')\<close>; the empty string is returned as it is.\<close>

definition normalizePath_on :: "(char \<Rightarrow> 'u) \<Rightarrow> 'u list \<Rightarrow> 'u list" where
  "normalizePath_on u fileName =
     map (\<lambda>c. if c = u (CHR 0x5C) then u (CHR ''/'') else c) fileName"

definition normalizePath :: "string \<Rightarrow> string" where
  "normalizePath fileName = normalizePath_on (\<lambda>c. c) fileName"

definition shortenSha :: "string \<Rightarrow> string" where
  "shortenSha sha =
     (if isStagedUncommitted sha then ''index''
      else if isUncommitted sha then ''''
      else let index = indexOf sha (CHR ''^'')
           in if index > 6 then substring2 sha 0 6 @ substring1 sha (nat index)
              else substring2 sha 0 8)"

text \<open>
  Modelled from the spec: \<^verbatim>\<open>path.dirname\<close> and \<^verbatim>\<open>path.basename\<close>, which the spec names
  ("derives root=dirname and file=basename"), belong to Node's library and are not among the
  sources. They are modelled as Node's POSIX functions: \<^verbatim>\<open>dirname\<close> scans the path from its
  end down to index 1 for the first \<^verbatim>\<open>/\<close> that follows a character other than \<^verbatim>\<open>/\<close>;
  \<^verbatim>\<open>basename\<close> is the last run of characters other than \<^verbatim>\<open>/\<close>.
\<close>

fun dirname_scan :: "'u \<Rightarrow> 'u list \<Rightarrow> nat \<Rightarrow> bool \<Rightarrow> nat option" where
  "dirname_scan slash p 0 matchedSlash = None"
| "dirname_scan slash p (Suc i) matchedSlash =
     (if p ! Suc i = slash
      then (if \<not> matchedSlash then Some (Suc i) else dirname_scan slash p i matchedSlash)
      else dirname_scan slash p i False)"

definition path_dirname_on :: "(char \<Rightarrow> 'u) \<Rightarrow> 'u list \<Rightarrow> 'u list" where
  "path_dirname_on u p =
     (case p of
        [] \<Rightarrow> map u ''.''
      | c # _ \<Rightarrow>
          (case dirname_scan (u (CHR ''/'')) p (length p - 1) True of
             None \<Rightarrow> (if c = u (CHR ''/'') then map u ''/'' else map u ''.'')
           | Some e \<Rightarrow> (if c = u (CHR ''/'') \<and> e = 1 then map u ''//'' else take e p)))"

definition path_basename_on :: "(char \<Rightarrow> 'u) \<Rightarrow> 'u list \<Rightarrow> 'u list" where
  "path_basename_on u p =
     rev (takeWhile (\<lambda>c. c \<noteq> u (CHR ''/'')) (dropWhile (\<lambda>c. c = u (CHR ''/'')) (rev p)))"

text \<open>
  \<^verbatim>\<open>splitPath(fileName, repoPath: string | undefined, extract = true): [string, string]\<close>.
  \<open>None\<close> is \<^verbatim>\<open>undefined\<close>; \<^verbatim>\<open>if (repoPath)\<close> holds for a string that is not empty. Without
  \<^verbatim>\<open>extract\<close> the else branch returns \<^verbatim>\<open>repoPath\<close> as it came (undefined or empty), so the second
  component is an option.
\<close>

definition splitPath_on ::
  "(char \<Rightarrow> 'u) \<Rightarrow> ('u list \<Rightarrow> 'u list) \<Rightarrow> 'u list \<Rightarrow> 'u list option \<Rightarrow> bool \<Rightarrow>
     'u list \<times> 'u list option" where
  "splitPath_on u lower fileName0 repoPath0 extract =
     (case repoPath0 of
        Some (c # cs) \<Rightarrow>
          (let fileName = normalizePath_on u fileName0;
               repoPath = normalizePath_on u (c # cs);
               normalizedRepoPath =
                 lower (if endsWith repoPath (map u ''/'') then repoPath
                        else repoPath @ map u ''/'')
           in if startsWith (lower fileName) normalizedRepoPath
              then (substring1 fileName (length normalizedRepoPath), Some repoPath)
              else (fileName, Some repoPath))
      | _ \<Rightarrow>
          (if extract
           then (normalizePath_on u (path_basename_on u fileName0),
                 Some (normalizePath_on u (path_dirname_on u fileName0)))
           else (normalizePath_on u fileName0, repoPath0)))"

definition splitPath :: "string \<Rightarrow> string option \<Rightarrow> bool \<Rightarrow> string \<times> string option" where
  "splitPath fileName repoPath extract =
     splitPath_on (\<lambda>c. c) toLowerCase fileName repoPath extract"

section \<open>Command executor\<close>

text \<open>
  \<^verbatim>\<open>const defaultLogParams = [`log`, `--name-status`, `--full-history`, `-M`, `--format=...`];\<close>
  \<^verbatim>\<open>const defaultStashParams = [`stash`, `list`, `--name-status`, `--full-history`, `-M`, `--format=...`];\<close>
\<close>

definition defaultLogParams :: "string list" where
  "defaultLogParams =
     [''log'', ''--name-status'', ''--full-history'', ''-M'',
      ''--format=%H -%nauthor %an%nauthor-date %at%nparents %P%nsummary %B%nfilename ?'']"

definition defaultStashParams :: "string list" where
  "defaultStashParams =
     [''stash'', ''list'', ''--name-status'', ''--full-history'', ''-M'',
      ''--format=%H -%nauthor-date %at%nreflog-selector %gd%nsummary %B%nfilename ?'']"

text \<open>
  The format string of a parameter list is what follows \<^verbatim>\<open>--format=\<close> in its last element;
  its fields are the pieces between the \<^verbatim>\<open>%n\<close> (newline) placeholders.
\<close>

definition format_of :: "string list \<Rightarrow> string" where
  "format_of params = drop (length ''--format='') (last params)"

fun split_fields :: "string \<Rightarrow> string \<Rightarrow> string list" where
  "split_fields acc [] = [rev acc]"
| "split_fields acc [c] = [rev (c # acc)]"
| "split_fields acc (c # d # cs) =
     (if c = CHR ''%'' \<and> d = CHR ''n'' then rev acc # split_fields [] cs
      else split_fields (c # acc) (d # cs))"

definition format_fields :: "string list \<Rightarrow> string list" where
  "format_fields params = split_fields [] (format_of params)"

text \<open>The spec's words, "substitutes A for B": every field equal to B becomes A.\<close>

definition substitute_field :: "string \<Rightarrow> string \<Rightarrow> string list \<Rightarrow> string list" where
  "substitute_field new old fields = map (\<lambda>f. if f = old then new else f) fields"

text \<open>
  \<^verbatim>\<open>const GitWarnings = [/Not a git repository/, /is outside repository/, /no such path/,\<close>
  \<^verbatim>\<open>  /does not have any commits/, /Path \'.*?\' does not exist in/,\<close>
  \<^verbatim>\<open>  /Path \'.*?\' exists on disk, but not in/, /no upstream configured for branch/];\<close>
\<close>

definition pathDoesNotExistRegex :: js_regex where
  "pathDoesNotExistRegex = Unanchored
     (Seq (Str ''Path '') (Seq (Chr (CHR 0x27)) (Seq (Star Dot)
       (Seq (Chr (CHR 0x27)) (Str '' does not exist in'')))))"

definition pathExistsOnDiskRegex :: js_regex where
  "pathExistsOnDiskRegex = Unanchored
     (Seq (Str ''Path '') (Seq (Chr (CHR 0x27)) (Seq (Star Dot)
       (Seq (Chr (CHR 0x27)) (Str '' exists on disk, but not in'')))))"

definition GitWarnings :: "js_regex list" where
  "GitWarnings =
     [Unanchored (Str ''Not a git repository''),
      Unanchored (Str ''is outside repository''),
      Unanchored (Str ''no such path''),
      Unanchored (Str ''does not have any commits''),
      pathDoesNotExistRegex,
      pathExistsOnDiskRegex,
      Unanchored (Str ''no upstream configured for branch'')]"

text \<open>
  \<^verbatim>\<open>interface GitCommandOptions { cwd: string; env?: any; encoding?: string;\<close>
  \<^verbatim>\<open>  stdin?: Observable<string> | undefined; willHandleErrors?: boolean; }\<close>
  An absent or undefined field is \<open>None\<close>. \<^verbatim>\<open>cwd\<close> is an option too, since callers pass the
  root that \<^verbatim>\<open>splitPath\<close> returns. An environment is an association list, an observable a
  handle. For \<^verbatim>\<open>encoding\<close> the executor tells a missing property (\<open>None\<close>) from a property
  whose value is undefined (\<open>Some None\<close>), since it spreads the options over a default.
\<close>

record GitCommandOptions =
  cwd :: "string option"
  env :: "(string \<times> string) list option"
  encoding :: "string option option"
  stdin :: "nat option"
  willHandleErrors :: "bool option"

text \<open>
  A thrown value, as far as the code looks at it: a falsy value, or an object with the
  text its \<^verbatim>\<open>toString()\<close> returns.
\<close>

datatype thrown = ThrownFalsy | ThrownError string

text \<open>\<^verbatim>\<open>ex && ex.toString()\<close>: undefined (\<open>None\<close>) for a falsy value.\<close>

fun exn_msg :: "thrown \<Rightarrow> string option" where
  "exn_msg ThrownFalsy = None"
| "exn_msg (ThrownError t) = Some t"

text \<open>A value interpolated in a template string, or given to \<^verbatim>\<open>RegExp.test\<close>.\<close>

fun js_string :: "string option \<Rightarrow> string" where
  "js_string None = ''undefined''"
| "js_string (Some s) = s"

text \<open>
  \<^verbatim>\<open>gitCommandDefaultErrorHandler(ex, options, ...args): string\<close> returns \<open>Inr ''''\<close> or throws
  (\<open>Inl\<close>). The calls of \<^verbatim>\<open>Logger\<close> write to the output channel only and are left out.
\<close>

definition gitCommandDefaultErrorHandler ::
  "thrown \<Rightarrow> GitCommandOptions \<Rightarrow> string list \<Rightarrow> thrown + string" where
  "gitCommandDefaultErrorHandler ex options args =
     (case exn_msg ex of
        Some (c # cs) \<Rightarrow>
          (if list_ex (\<lambda>warning. test warning (c # cs)) GitWarnings then Inr '''' else Inl ex)
      | _ \<Rightarrow> Inl ex)"

text \<open>
  \<^verbatim>\<open>gitCommand(options, ...args)\<close> awaits \<^verbatim>\<open>gitCommandCore(options, ...args)\<close>; \<open>core\<close> is the
  outcome of that promise, \<open>Inl\<close> a rejection.
\<close>

definition gitCommand ::
  "GitCommandOptions \<Rightarrow> string list \<Rightarrow> thrown + string \<Rightarrow> thrown + string" where
  "gitCommand options args core =
     (if willHandleErrors options = Some True then core
      else (case core of
              Inr s \<Rightarrow> Inr s
            | Inl ex \<Rightarrow> gitCommandDefaultErrorHandler ex options args))"

text \<open>
  The module state of the executor: the path of the git binary (\<^verbatim>\<open>git.path\<close>), the
  environment of the process (\<^verbatim>\<open>process.env\<close>), the map \<^verbatim>\<open>pendingCommands\<close> from command keys
  to promises, and every call of \<^verbatim>\<open>spawnPromise\<close> made so far. A promise is named by the
  index of the spawn that created it.
\<close>

record SpawnOptions =
  spawn_cwd :: "string option"
  spawn_env :: "(string \<times> string) list"
  spawn_encoding :: string
  spawn_stdin :: "nat option"

record spawn_call =
  spawn_path :: string
  spawn_args :: "string list"
  spawn_options :: SpawnOptions

record executor =
  git_path :: string
  process_env :: "(string \<times> string) list"
  pendingCommands :: "string \<rightharpoonup> nat"
  spawned :: "spawn_call list"

text \<open>\<^verbatim>\<open>{ ...obj, key: value }\<close> on an association list.\<close>

definition obj_set :: "string \<Rightarrow> string \<Rightarrow> (string \<times> string) list \<Rightarrow> (string \<times> string) list" where
  "obj_set k v obj = (if k \<in> fst ` set obj then map (\<lambda>(k', v'). if k' = k then (k', v) else (k', v')) obj
                      else obj @ [(k, v)])"

text \<open>
  \<^verbatim>\<open>const opts = { encoding: 'utf8', ...options }\<close>, of which only the encoding is read apart
  from \<^verbatim>\<open>stdin\<close>: the default stands when the options have no such property, and a property
  of the options, undefined or not, replaces it.
\<close>

definition opts_encoding :: "GitCommandOptions \<Rightarrow> string option" where
  "opts_encoding options = (case encoding options of None \<Rightarrow> Some ''utf8'' | Some e \<Rightarrow> e)"

definition command_key :: "GitCommandOptions \<Rightarrow> string list \<Rightarrow> string" where
  "command_key options args0 =
     (let args = [''-c'', ''core.quotepath=false'', ''-c'', ''color.ui=false''] @ args0
      in ''('' @ js_string (cwd options) @ ''): git '' @ join '' '' args)"

text \<open>
  \<^verbatim>\<open>gitCommandCore\<close> has one suspension point, \<^verbatim>\<open>const s = await promise\<close>. The function is
  modelled by its two halves. \<open>gitCommandCore_call\<close> is the code up to the \<^verbatim>\<open>await\<close>: it returns
  the new module state and the promise the caller now awaits. \<open>gitCommandCore_resume\<close> is the
  code after the \<^verbatim>\<open>await\<close>, run when the promise has settled with \<open>outcome\<close>: a rejection
  (\<open>Inl\<close>) makes the \<^verbatim>\<open>await\<close> throw, so nothing after it runs; \<open>decode\<close> is
  \<^verbatim>\<open>iconv.decode(Buffer.from(s, 'binary'), encoding)\<close>, which returns a string or throws.
\<close>

definition gitCommandCore_call ::
  "executor \<Rightarrow> GitCommandOptions \<Rightarrow> string list \<Rightarrow> executor \<times> nat" where
  "gitCommandCore_call ex options args0 =
     (let args = [''-c'', ''core.quotepath=false'', ''-c'', ''color.ui=false''] @ args0;
          command = command_key options args0
      in case pendingCommands ex command of
           None \<Rightarrow>
             (let promise = length (spawned ex);
                  call = \<lparr>spawn_path = git_path ex, spawn_args = args,
                          spawn_options = \<lparr>
                            spawn_cwd = cwd options,
                            spawn_env = obj_set ''GCM_PRESERVE_CREDS'' ''TRUE''
                              (obj_set ''GCM_INTERACTIVE'' ''NEVER''
                                (case env options of Some e \<Rightarrow> e | None \<Rightarrow> process_env ex)),
                            spawn_encoding =
                              (if opts_encoding options = Some ''utf8'' then ''utf8''
                               else ''binary''),
                            spawn_stdin = stdin options\<rparr>\<rparr>
              in (ex\<lparr>spawned := spawned ex @ [call],
                     pendingCommands := (pendingCommands ex)(command \<mapsto> promise)\<rparr>, promise))
         | Some promise \<Rightarrow> (ex, promise))"

definition gitCommandCore_resume ::
  "(string \<Rightarrow> string option \<Rightarrow> thrown + string) \<Rightarrow> executor \<Rightarrow> GitCommandOptions \<Rightarrow> string list \<Rightarrow>
     thrown + string \<Rightarrow> executor \<times> (thrown + string)" where
  "gitCommandCore_resume decode ex options args0 outcome =
     (case outcome of
        Inl e \<Rightarrow> (ex, Inl e)
      | Inr s \<Rightarrow>
          (ex\<lparr>pendingCommands := (pendingCommands ex)(command_key options args0 := None)\<rparr>,
           if opts_encoding options = Some ''utf8'' \<or> opts_encoding options = Some ''binary''
           then Inr s
           else decode s (opts_encoding options)))"

text \<open>
  \<^verbatim>\<open>Git.show(repoPath, fileName, branchOrSha, options)\<close> up to its call of \<^verbatim>\<open>gitCommand\<close>: it
  throws, or it calls \<^verbatim>\<open>gitCommand(opts, 'show', args)\<close>.
\<close>

datatype show_step = Throws thrown | Invokes GitCommandOptions "string list"

definition show_call :: "string option \<Rightarrow> string \<Rightarrow> string \<Rightarrow> string option \<Rightarrow> show_step" where
  "show_call repoPath fileName branchOrSha0 options_encoding =
     (let (file, root) = splitPath fileName repoPath True;
          branchOrSha = (if isStagedUncommitted branchOrSha0 then '':'' else branchOrSha0)
      in if isUncommitted branchOrSha
         then Throws (ThrownError (''Error: sha='' @ branchOrSha @ '' is uncommitted''))
         else
           (let opts = \<lparr>cwd = root, env = None,
                        encoding = Some (Some (case options_encoding of
                                           Some (c # cs) \<Rightarrow> c # cs | _ \<Rightarrow> ''utf8'')),
                        stdin = None, willHandleErrors = Some True\<rparr>;
                args = (if endsWith branchOrSha '':'' then branchOrSha @ ''./'' @ file
                        else branchOrSha @ '':./'' @ file)
            in Invokes opts [''show'', args]))"

text \<open>The \<^verbatim>\<open>try\<close>/\<^verbatim>\<open>catch\<close> around that call; \<open>Inr None\<close> is the result \<^verbatim>\<open>undefined\<close>.\<close>

definition show_result ::
  "GitCommandOptions \<Rightarrow> string \<Rightarrow> thrown + string \<Rightarrow> thrown + string option" where
  "show_result opts args outcome =
     (case gitCommand opts [''show'', args] outcome of
        Inr data \<Rightarrow> Inr (Some data)
      | Inl ex \<Rightarrow>
          (let msg = js_string (exn_msg ex)
           in if test pathDoesNotExistRegex msg
                 \<or> test (Unanchored (Seq (Str ''Path '') (Seq (Chr (CHR 0x27)) (Seq (Star Dot)
                      (Seq (Chr (CHR 0x27)) (Str '' exists on disk, but not in '')))))) msg
              then Inr None
              else (case gitCommandDefaultErrorHandler ex opts [args] of
                      Inl ex' \<Rightarrow> Inl ex'
                    | Inr s \<Rightarrow> Inr (Some s))))"

section \<open>Repository state tracker (class GitContextTracker)\<close>

datatype BlameabilityChangeReason = BlameFailed | DocumentChanged | EditorChanged | RepoChanged

text \<open>
  An editor is a reference, compared with \<^verbatim>\<open>===\<close>: it is modelled by an identifier and the URI
  of its document, neither of which changes. What does change, \<^verbatim>\<open>document.isDirty\<close>, is read
  by the handlers and comes with each event.
\<close>

record TextEditor =
  editor_id :: nat
  document_uri :: string

record BlameabilityChangeEvent =
  ev_blameable :: "bool option"
  ev_editor :: "TextEditor option"
  ev_reason :: BlameabilityChangeReason

text \<open>
  \<^verbatim>\<open>interface ContextState { blameable?: boolean; dirty: boolean; tracked?: boolean; }\<close>
  \<^verbatim>\<open>interface Context { editor?; repo?; repoDisposable?; state: ContextState; uri?; }\<close>
  A repository is an identifier; \<open>repoDisposable\<close> names the repository whose change events
  the tracker is subscribed to.
\<close>

record ContextState =
  blameable :: "bool option"
  dirty :: bool
  tracked :: "bool option"

record Context =
  editor :: "TextEditor option"
  repo :: "nat option"
  repoDisposable :: "nat option"
  state :: ContextState
  uri :: "string option"


text \<open>\<^verbatim>\<open>a && b\<close> where \<open>a\<close> is a boolean or undefined and \<open>b\<close> a boolean.\<close>

definition js_and :: "bool option \<Rightarrow> bool \<Rightarrow> bool option" where
  "js_and a b = (case a of None \<Rightarrow> None | Some False \<Rightarrow> Some False | Some True \<Rightarrow> Some b)"

text \<open>
  \<^verbatim>\<open>updateBlameability(reason, blameable?: boolean, force = false)\<close> returns the new context
  and the events it fired. \<^verbatim>\<open>setCommandContext(CommandContext.ActiveIsBlameable, blameable)\<close>
  precedes the event and carries the same value.
\<close>

definition updateBlameability ::
  "BlameabilityChangeReason \<Rightarrow> bool option \<Rightarrow> bool \<Rightarrow> Context \<Rightarrow>
     Context \<times> BlameabilityChangeEvent list" where
  "updateBlameability reason blameable0 force ctx =
     (let blameable' = (case blameable0 of
                          None \<Rightarrow> js_and (tracked (state ctx)) (\<not> dirty (state ctx))
                        | Some b \<Rightarrow> Some b)
      in if \<not> force \<and> blameable (state ctx) = blameable' then (ctx, [])
         else (ctx\<lparr>state := (state ctx)\<lparr>blameable := blameable'\<rparr>\<rparr>,
               [\<lparr>ev_blameable = blameable', ev_editor = editor ctx, ev_reason = reason\<rparr>]))"



text \<open>
  The handlers. \<open>is_text\<close> is \<^verbatim>\<open>isTextEditor(editor)\<close> and \<open>cache_key\<close> is
  \<^verbatim>\<open>this.git.getCacheEntryKey\<close>, applied to the URI of the editor's document: both are
  defined outside the sources and are taken as parameters.
\<close>















section \<open>Correctness of the matcher\<close>

lemma in_conc: "w \<in> conc A B \<longleftrightarrow> (\<exists>u v. w = u @ v \<and> u \<in> A \<and> v \<in> B)"
  by (auto simp: conc_def)

lemma nil_in_conc: "[] \<in> conc A B \<longleftrightarrow> [] \<in> A \<and> [] \<in> B"
  by (auto simp: conc_def)

lemma cons_in_conc:
  "c # w \<in> conc A B \<longleftrightarrow>
     (\<exists>u v. w = u @ v \<and> c # u \<in> A \<and> v \<in> B) \<or> ([] \<in> A \<and> c # w \<in> B)"
  by (auto simp: conc_def Cons_eq_append_conv)

lemma conc_mono: "A \<subseteq> A' \<Longrightarrow> B \<subseteq> B' \<Longrightarrow> conc A B \<subseteq> conc A' B'"
  by (auto simp: conc_def)

lemma cons_in_star_D:
  assumes "x \<in> star A" and "x = c # w"
  shows "\<exists>u v. w = u @ v \<and> c # u \<in> A \<and> v \<in> star A"
  using assms
proof (induction arbitrary: w rule: star.induct)
  case star_nil
  then show ?case by simp
next
  case (star_app u v)
  show ?case
  proof (cases u)
    case Nil
    with star_app show ?thesis by simp
  next
    case (Cons a u')
    with star_app.prems have "a = c" and "w = u' @ v" by simp_all
    with Cons star_app.hyps show ?thesis by blast
  qed
qed

lemma cons_in_star:
  "c # w \<in> star A \<longleftrightarrow> (\<exists>u v. w = u @ v \<and> c # u \<in> A \<and> v \<in> star A)"
proof
  assume "c # w \<in> star A"
  then show "\<exists>u v. w = u @ v \<and> c # u \<in> A \<and> v \<in> star A"
    by (rule cons_in_star_D) simp
next
  assume "\<exists>u v. w = u @ v \<and> c # u \<in> A \<and> v \<in> star A"
  then obtain u v where "w = u @ v" "c # u \<in> A" "v \<in> star A" by blast
  then show "c # w \<in> star A"
    using star_app [of "c # u" A v] by simp
qed

lemma nullable_lang: "nullable r \<longleftrightarrow> [] \<in> lang r"
  by (induction r) (auto simp: nil_in_conc intro: star_nil)

lemma lang_deriv: "w \<in> lang (deriv c r) \<longleftrightarrow> c # w \<in> lang r"
proof (induction r arbitrary: w)
  case (Seq r s)
  have a: "w \<in> conc (lang (deriv c r)) (lang s) \<longleftrightarrow>
      (\<exists>u v. w = u @ v \<and> c # u \<in> lang r \<and> v \<in> lang s)"
    unfolding in_conc using Seq.IH(1) by blast
  show ?case
    unfolding cons_in_conc [of c w] deriv.simps lang.simps
    using a Seq.IH(2) [of w] by (auto simp: nullable_lang)
next
  case (Star r)
  have "w \<in> conc (lang (deriv c r)) (star (lang r)) \<longleftrightarrow>
      (\<exists>u v. w = u @ v \<and> c # u \<in> lang r \<and> v \<in> star (lang r))"
    unfolding in_conc using Star.IH by blast
  then show ?case
    unfolding cons_in_star [of c w] deriv.simps lang.simps .
qed auto

lemma matches_lang: "matches r s \<longleftrightarrow> s \<in> lang r"
  by (induction s arbitrary: r) (simp_all add: nullable_lang lang_deriv)

lemma matches_prefix_lang: "matches_prefix r s \<longleftrightarrow> (\<exists>w v. s = w @ v \<and> w \<in> lang r)"
proof (induction s arbitrary: r)
  case Nil
  then show ?case by (simp add: nullable_lang)
next
  case (Cons c cs)
  show ?case
  proof
    assume "matches_prefix r (c # cs)"
    then consider "nullable r" | "matches_prefix (deriv c r) cs" by auto
    then show "\<exists>w v. c # cs = w @ v \<and> w \<in> lang r"
    proof cases
      case 1
      then have "c # cs = [] @ (c # cs) \<and> [] \<in> lang r" by (simp add: nullable_lang)
      then show ?thesis by blast
    next
      case 2
      then obtain w v where "cs = w @ v" "w \<in> lang (deriv c r)" using Cons.IH by blast
      then have "c # cs = (c # w) @ v \<and> c # w \<in> lang r" by (simp add: lang_deriv)
      then show ?thesis by blast
    qed
  next
    assume "\<exists>w v. c # cs = w @ v \<and> w \<in> lang r"
    then obtain w v where wv: "c # cs = w @ v" "w \<in> lang r" by blast
    show "matches_prefix r (c # cs)"
    proof (cases w)
      case Nil
      with wv have "nullable r" by (simp add: nullable_lang)
      then show ?thesis by simp
    next
      case (Cons a w')
      with wv have "cs = w' @ v" "w' \<in> lang (deriv c r)" by (simp_all add: lang_deriv)
      then show ?thesis using Cons.IH by auto
    qed
  qed
qed

lemma search_lang: "search r s \<longleftrightarrow> (\<exists>u w v. s = u @ w @ v \<and> w \<in> lang r)"
proof (induction s)
  case Nil
  then show ?case by (simp add: nullable_lang)
next
  case (Cons c cs)
  show ?case
  proof
    assume "search r (c # cs)"
    then consider "matches_prefix r (c # cs)" | "search r cs" by auto
    then show "\<exists>u w v. c # cs = u @ w @ v \<and> w \<in> lang r"
    proof cases
      case 1
      then obtain w v where "c # cs = [] @ w @ v \<and> w \<in> lang r"
        by (auto simp: matches_prefix_lang)
      then show ?thesis by blast
    next
      case 2
      then obtain u w v where "cs = u @ w @ v" "w \<in> lang r" using Cons.IH by blast
      then have "c # cs = (c # u) @ w @ v \<and> w \<in> lang r" by simp
      then show ?thesis by blast
    qed
  next
    assume "\<exists>u w v. c # cs = u @ w @ v \<and> w \<in> lang r"
    then obtain u w v where uwv: "c # cs = u @ w @ v" "w \<in> lang r" by blast
    show "search r (c # cs)"
    proof (cases u)
      case Nil
      with uwv have "matches_prefix r (c # cs)" by (auto simp: matches_prefix_lang)
      then show ?thesis by simp
    next
      case (Cons a u')
      with uwv have "cs = u' @ w @ v" by simp
      with uwv(2) have "search r cs" using Cons.IH by blast
      then show ?thesis by simp
    qed
  qed
qed

lemma lang_Opt: "lang (Opt r) = insert [] (lang r)"
  by (auto simp: Opt_def)

lemma lang_Str: "lang (Str s) = {s}"
  by (induction s) (auto simp: conc_def)

lemma star_of_chars: "w \<in> star {[c] | c. P c} \<longleftrightarrow> (\<forall>c \<in> set w. P c)"
proof (induction w)
  case Nil
  then show ?case by (simp add: star_nil)
next
  case (Cons a w)
  then show ?case by (auto simp: cons_in_star)
qed

lemma in_conc_chars:
  "w \<in> conc {[c] | c. P c} B \<longleftrightarrow> (\<exists>c v. w = c # v \<and> P c \<and> v \<in> B)"
proof
  assume "w \<in> conc {[c] | c. P c} B"
  then show "\<exists>c v. w = c # v \<and> P c \<and> v \<in> B" by (auto simp: conc_def)
next
  assume "\<exists>c v. w = c # v \<and> P c \<and> v \<in> B"
  then obtain c v where "w = [c] @ v" "P c" "v \<in> B" by auto
  then show "w \<in> conc {[c] | c. P c} B" unfolding conc_def by blast
qed

lemma lang_Rep_Cls:
  "lang (Rep n (Cls rs)) = {w. length w = n \<and> (\<forall>c \<in> set w. in_cls rs c)}"
proof (induction n)
  case 0
  then show ?case by auto
next
  case (Suc n)
  show ?case
  proof (rule set_eqI)
    fix w
    show "w \<in> lang (Rep (Suc n) (Cls rs)) \<longleftrightarrow>
          w \<in> {w. length w = Suc n \<and> (\<forall>c \<in> set w. in_cls rs c)}"
      using Suc by (cases w) (auto simp: in_conc_chars)
  qed
qed

section \<open>Commit identifiers\<close>

lemma in_cls_zero: "in_cls [(CHR ''0'', CHR ''0'')] c \<longleftrightarrow> c = CHR ''0''"
  using of_char_eq_iff [of c "CHR ''0''", where ?'a = nat]
  by (auto simp: in_cls_def in_range_def)

lemma in_cls_digit: "in_cls [(CHR ''0'', CHR ''9'')] c \<longleftrightarrow> c \<in> set ''0123456789''"
proof
  assume "c \<in> set ''0123456789''"
  then show "in_cls [(CHR ''0'', CHR ''9'')] c"
    by (auto simp: in_cls_def in_range_def)
next
  assume "in_cls [(CHR ''0'', CHR ''9'')] c"
  then have "48 \<le> (of_char c :: nat)" "(of_char c :: nat) \<le> 57"
    by (auto simp: in_cls_def in_range_def)
  then have "(of_char c :: nat) \<in> {48,49,50,51,52,53,54,55,56,57}" by (simp; arith)
  moreover have "(of_char ` set ''0123456789'' :: nat set) = {48,49,50,51,52,53,54,55,56,57}"
    by simp
  ultimately have "(of_char c :: nat) \<in> of_char ` set ''0123456789''" by (simp only:)
  then obtain d where "d \<in> set ''0123456789''" "(of_char c :: nat) = of_char d" by (rule imageE)
  then show "c \<in> set ''0123456789''"
    by (simp only: of_char_eq_iff)
qed

lemma in_cls_hex:
  "in_cls [(CHR ''0'', CHR ''9''), (CHR ''a'', CHR ''f'')] c \<longleftrightarrow> c \<in> set ''0123456789abcdef''"
proof
  assume "c \<in> set ''0123456789abcdef''"
  then show "in_cls [(CHR ''0'', CHR ''9''), (CHR ''a'', CHR ''f'')] c"
    by (auto simp: in_cls_def in_range_def)
next
  assume "in_cls [(CHR ''0'', CHR ''9''), (CHR ''a'', CHR ''f'')] c"
  then have "48 \<le> (of_char c :: nat) \<and> (of_char c :: nat) \<le> 57
     \<or> 97 \<le> (of_char c :: nat) \<and> (of_char c :: nat) \<le> 102"
    by (auto simp: in_cls_def in_range_def)
  then have "(of_char c :: nat) \<in> {48,49,50,51,52,53,54,55,56,57,97,98,99,100,101,102}"
    by (simp; arith)
  moreover have "(of_char ` set ''0123456789abcdef'' :: nat set)
      = {48,49,50,51,52,53,54,55,56,57,97,98,99,100,101,102}"
    by simp
  ultimately have "(of_char c :: nat) \<in> of_char ` set ''0123456789abcdef''" by (simp only:)
  then obtain d where "d \<in> set ''0123456789abcdef''" "(of_char c :: nat) = of_char d"
    by (rule imageE)
  then show "c \<in> set ''0123456789abcdef''"
    by (simp only: of_char_eq_iff)
qed

lemma lang_caret_suffix:
  "lang (Opt (Seq (Chr (CHR ''^'')) (Star (Cls [(CHR ''0'', CHR ''9'')])))) = caret_suffix"
proof -
  have "conc {[CHR ''^'']} (star {[c] | c. in_cls [(CHR ''0'', CHR ''9'')] c})
      = {CHR ''^'' # ds | ds. \<forall>c \<in> set ds. c \<in> set ''0123456789''}"
    unfolding conc_def by (auto simp: star_of_chars in_cls_digit)
  then show ?thesis
    unfolding lang_Opt caret_suffix_def by simp
qed

lemma isSha_iff: "isSha s \<longleftrightarrow> s \<in> conc hex40 (conc caret_suffix {[], '' -''})"
proof -
  have "lang (Rep 40 (Cls [(CHR ''0'', CHR ''9''), (CHR ''a'', CHR ''f'')])) = hex40"
    unfolding lang_Rep_Cls hex40_def in_cls_hex ..
  moreover have "lang (Opt (Str '' -'')) = {[], '' -''}"
    unfolding lang_Opt lang_Str ..
  ultimately show ?thesis
    unfolding isSha_def shaRegex_def test.simps matches_lang
    by (simp only: lang.simps(6) lang_caret_suffix)
qed

lemma isStagedUncommitted_iff:
  "isStagedUncommitted s \<longleftrightarrow> s \<in> conc zero40 (conc caret_suffix {'':''})"
proof -
  have "lang (Rep 40 (Cls [(CHR ''0'', CHR ''0'')])) = zero40"
    unfolding lang_Rep_Cls zero40_def in_cls_zero ..
  then show ?thesis
    unfolding isStagedUncommitted_def stagedUncommittedRegex_def test.simps matches_lang
    by (simp only: lang.simps(6) lang.simps(3) lang_caret_suffix)
qed

lemma isUncommitted_iff:
  "isUncommitted s \<longleftrightarrow> s \<in> conc zero40 (conc caret_suffix {[], '':''})"
proof -
  have "lang (Rep 40 (Cls [(CHR ''0'', CHR ''0'')])) = zero40"
    unfolding lang_Rep_Cls zero40_def in_cls_zero ..
  moreover have "lang (Opt (Chr (CHR '':''))) = {[], '':''}"
    unfolding lang_Opt by simp
  ultimately show ?thesis
    unfolding isUncommitted_def uncommittedRegex_def test.simps matches_lang
    by (simp only: lang.simps(6) lang_caret_suffix)
qed

lemma zero40_subset_hex40: "zero40 \<subseteq> hex40"
  unfolding zero40_def hex40_def by auto

lemma staged_imp_uncommitted: "isStagedUncommitted s \<Longrightarrow> isUncommitted s"
  unfolding isStagedUncommitted_iff isUncommitted_iff
  using conc_mono [OF subset_refl conc_mono [OF subset_refl, of "{'':''}" "{[], '':''}"]]
  by blast

lemma staged_last: "isStagedUncommitted s \<Longrightarrow> s \<noteq> [] \<and> last s = CHR '':''"
  unfolding isStagedUncommitted_iff in_conc by auto

lemma hex40_last: "h \<in> hex40 \<Longrightarrow> h \<noteq> [] \<and> last h \<noteq> CHR '':''"
proof -
  assume h: "h \<in> hex40"
  then have len: "length h = 40" and hex: "\<forall>c \<in> set h. c \<in> set ''0123456789abcdef''"
    unfolding hex40_def by blast+
  from len have ne: "h \<noteq> []" by (cases h) simp_all
  then have "last h \<in> set h" by (rule last_in_set)
  with hex have "last h \<in> set ''0123456789abcdef''" by blast
  moreover have "CHR '':'' \<notin> set ''0123456789abcdef''" by simp
  ultimately have "last h \<noteq> CHR '':''" by metis
  with ne show ?thesis by simp
qed

lemma caret_suffix_last: "t \<in> caret_suffix \<Longrightarrow> t \<noteq> [] \<Longrightarrow> last t \<noteq> CHR '':''"
proof -
  assume "t \<in> caret_suffix" "t \<noteq> []"
  then obtain ds where t: "t = CHR ''^'' # ds" and ds: "\<forall>c \<in> set ds. c \<in> set ''0123456789''"
    unfolding caret_suffix_def by blast
  show ?thesis
  proof (cases ds)
    case Nil
    with t show ?thesis by simp
  next
    case (Cons a as)
    then have "last ds \<in> set ds" by simp
    with ds have "last ds \<in> set ''0123456789''" by blast
    moreover have "CHR '':'' \<notin> set ''0123456789''" by simp
    ultimately have "last ds \<noteq> CHR '':''" by metis
    with t Cons show ?thesis by simp
  qed
qed

lemma sha_last: "isSha s \<Longrightarrow> s \<noteq> [] \<and> last s \<noteq> CHR '':''"
proof -
  assume "isSha s"
  then obtain h t d where s: "s = h @ t @ d" and h: "h \<in> hex40" and t: "t \<in> caret_suffix"
    and d: "d = [] \<or> d = '' -''"
    unfolding isSha_iff in_conc by auto
  from h have hl: "h \<noteq> []" "last h \<noteq> CHR '':''" using hex40_last by auto
  show ?thesis
  proof (cases "d = []")
    case False
    with d s show ?thesis by simp
  next
    case True
    show ?thesis
    proof (cases "t = []")
      case True
      with \<open>d = []\<close> s hl show ?thesis by simp
    next
      case False
      with \<open>d = []\<close> s t caret_suffix_last [OF t] show ?thesis by simp
    qed
  qed
qed

lemma sha_staged_exclusive: "\<not> (isSha s \<and> isStagedUncommitted s)"
  using sha_last [of s] staged_last [of s] by blast

lemma uncommitted_cases:
  "isUncommitted s \<Longrightarrow> isStagedUncommitted s \<or> isSha s"
proof -
  assume "isUncommitted s"
  then obtain z td where s: "s = z @ td" and z: "z \<in> zero40"
    and td: "td \<in> conc caret_suffix {[], '':''}"
    unfolding isUncommitted_iff in_conc [of s] by blast
  from td obtain t d where td': "td = t @ d" "t \<in> caret_suffix" "d = [] \<or> d = '':''"
    unfolding in_conc by auto
  from td'(3) show ?thesis
  proof
    assume "d = []"
    with td' have "td \<in> conc caret_suffix {[], '' -''}" unfolding in_conc by auto
    moreover from z have "z \<in> hex40" using zero40_subset_hex40 by blast
    ultimately have "isSha s" unfolding isSha_iff in_conc [of s] using s by blast
    then show ?thesis ..
  next
    assume "d = '':''"
    with td' have "td \<in> conc caret_suffix {'':''}" unfolding in_conc by auto
    with z s have "isStagedUncommitted s" unfolding isStagedUncommitted_iff in_conc [of s] by blast
    then show ?thesis ..
  qed
qed

lemma hex40_isSha: "s \<in> hex40 \<Longrightarrow> isSha s"
proof -
  assume "s \<in> hex40"
  moreover have "[] \<in> conc caret_suffix {[], '' -''}"
    by (simp add: nil_in_conc caret_suffix_def)
  ultimately have "s @ [] \<in> conc hex40 (conc caret_suffix {[], '' -''})"
    unfolding in_conc [of "s @ []"] by blast
  then show ?thesis unfolding isSha_iff by simp
qed

text \<open>
  C1, counterexample. The claim says that no string satisfies two of \<open>isSha\<close>,
  \<open>isStagedUncommitted\<close> and \<open>isUncommitted\<close>. The two sentinel values of the source do:
  \<open>stagedUncommittedSha\<close> is both staged-uncommitted and uncommitted, and \<open>uncommittedSha\<close>
  is both a sha and uncommitted.
\<close>

theorem commit_id_classes_overlap:
  "isStagedUncommitted stagedUncommittedSha \<and> isUncommitted stagedUncommittedSha
   \<and> isSha uncommittedSha \<and> isUncommitted uncommittedSha"
  by code_simp

text \<open>
  C1, as amended. The three patterns are nested, not disjoint: no string is both a sha and
  staged-uncommitted; every staged-uncommitted string is uncommitted; an uncommitted string
  is a sha exactly when it is not staged-uncommitted (when it has no trailing colon). Every
  40-hex-based input falls in a class: 40 lower-case hexadecimal digits, alone or followed
  by a caret and digits, with or without a final \<open> -\<close>, are a sha; 40 zeros, alone or
  followed by a caret and digits, are uncommitted, and with a final colon they are
  staged-uncommitted as well as uncommitted.
\<close>

theorem commit_id_classes:
  "\<not> (isSha s \<and> isStagedUncommitted s)
   \<and> (isStagedUncommitted s \<longrightarrow> isUncommitted s)
   \<and> (isUncommitted s \<longrightarrow> (isSha s \<longleftrightarrow> \<not> isStagedUncommitted s))
   \<and> (length h = 40 \<and> (\<forall>c \<in> set h. c \<in> set ''0123456789abcdef'')
        \<and> (t = [] \<or> (\<exists>ds. t = CHR ''^'' # ds \<and> (\<forall>c \<in> set ds. c \<in> set ''0123456789'')))
      \<longrightarrow> isSha (h @ t) \<and> isSha (h @ t @ '' -''))
   \<and> (length z = 40 \<and> (\<forall>c \<in> set z. c = CHR ''0'')
        \<and> (t = [] \<or> (\<exists>ds. t = CHR ''^'' # ds \<and> (\<forall>c \<in> set ds. c \<in> set ''0123456789'')))
      \<longrightarrow> isUncommitted (z @ t) \<and> isUncommitted (z @ t @ '':'')
          \<and> isStagedUncommitted (z @ t @ '':''))"
proof (intro conjI impI)
  show "\<not> (isSha s \<and> isStagedUncommitted s)" by (rule sha_staged_exclusive)
next
  assume "isStagedUncommitted s"
  then show "isUncommitted s" by (rule staged_imp_uncommitted)
next
  assume "isUncommitted s"
  then show "isSha s \<longleftrightarrow> \<not> isStagedUncommitted s"
    using uncommitted_cases [of s] sha_staged_exclusive [of s] by blast
next
  assume a: "length h = 40 \<and> (\<forall>c \<in> set h. c \<in> set ''0123456789abcdef'')
      \<and> (t = [] \<or> (\<exists>ds. t = CHR ''^'' # ds \<and> (\<forall>c \<in> set ds. c \<in> set ''0123456789'')))"
  then have h: "h \<in> hex40" unfolding hex40_def by blast
  from a have t: "t \<in> caret_suffix" unfolding caret_suffix_def by blast
  from t have "t @ [] \<in> conc caret_suffix {[], '' -''}" unfolding in_conc by blast
  with h have "h @ t @ [] \<in> conc hex40 (conc caret_suffix {[], '' -''})"
    unfolding in_conc [of "h @ t @ []"] by blast
  then show "isSha (h @ t)" unfolding isSha_iff by simp
  from t have "t @ '' -'' \<in> conc caret_suffix {[], '' -''}" unfolding in_conc by blast
  with h show "isSha (h @ t @ '' -'')"
    unfolding isSha_iff in_conc [of "h @ t @ '' -''"] by blast
next
  assume a: "length z = 40 \<and> (\<forall>c \<in> set z. c = CHR ''0'')
      \<and> (t = [] \<or> (\<exists>ds. t = CHR ''^'' # ds \<and> (\<forall>c \<in> set ds. c \<in> set ''0123456789'')))"
  then have z: "z \<in> zero40" unfolding zero40_def by blast
  from a have t: "t \<in> caret_suffix" unfolding caret_suffix_def by blast
  from t have "t @ [] \<in> conc caret_suffix {[], '':''}" unfolding in_conc by blast
  with z have "z @ t @ [] \<in> conc zero40 (conc caret_suffix {[], '':''})"
    unfolding in_conc [of "z @ t @ []"] by blast
  then show "isUncommitted (z @ t)" unfolding isUncommitted_iff by simp
  from t have "t @ '':'' \<in> conc caret_suffix {'':''}" unfolding in_conc by blast
  with z show "isStagedUncommitted (z @ t @ '':'')"
    unfolding isStagedUncommitted_iff in_conc [of "z @ t @ '':''"] by blast
  then show "isUncommitted (z @ t @ '':'')" by (rule staged_imp_uncommitted)
qed

theorem commit_id_classes_witness:
  "isStagedUncommitted stagedUncommittedSha \<and> isUncommitted stagedUncommittedSha
   \<and> \<not> isSha stagedUncommittedSha
   \<and> isSha (''a1b2c3d4e5f60718293a4b5c6d7e8f9012345678'' @ ''^2'')
   \<and> isSha (''a1b2c3d4e5f60718293a4b5c6d7e8f9012345678'' @ ''^2'' @ '' -'')
   \<and> isUncommitted (uncommittedSha @ ''^2'')
   \<and> isUncommitted (uncommittedSha @ ''^2'' @ '':'')
   \<and> isStagedUncommitted (uncommittedSha @ ''^2'' @ '':'')"
proof -
  let ?h = "''a1b2c3d4e5f60718293a4b5c6d7e8f9012345678''"
  have staged: "isStagedUncommitted stagedUncommittedSha" by code_simp
  have h1: "length ?h = 40" by simp
  have h2: "\<forall>c \<in> set ?h. c \<in> set ''0123456789abcdef''" by code_simp
  have t: "''^2'' = [] \<or> (\<exists>ds. ''^2'' = CHR ''^'' # ds \<and> (\<forall>c \<in> set ds. c \<in> set ''0123456789''))"
    by simp
  have z1: "length uncommittedSha = 40" by (simp add: uncommittedSha_def)
  have z2: "\<forall>c \<in> set uncommittedSha. c = CHR ''0''" by code_simp
  note c = commit_id_classes [of stagedUncommittedSha ?h "''^2''" uncommittedSha]
  note c1 = c [THEN conjunct1]
  note c2 = c [THEN conjunct2, THEN conjunct1]
  note c4 = c [THEN conjunct2, THEN conjunct2, THEN conjunct2, THEN conjunct1]
  note c5 = c [THEN conjunct2, THEN conjunct2, THEN conjunct2, THEN conjunct2]
  have a: "isUncommitted stagedUncommittedSha" by (rule mp [OF c2 staged])
  have b: "\<not> isSha stagedUncommittedSha" using c1 staged by blast
  have d: "isSha (?h @ ''^2'') \<and> isSha (?h @ ''^2'' @ '' -'')"
    by (rule mp [OF c4 conjI [OF h1 conjI [OF h2 t]]])
  have e: "isUncommitted (uncommittedSha @ ''^2'')
      \<and> isUncommitted (uncommittedSha @ ''^2'' @ '':'')
      \<and> isStagedUncommitted (uncommittedSha @ ''^2'' @ '':'')"
    by (rule mp [OF c5 conjI [OF z1 conjI [OF z2 t]]])
  from staged a b d e show ?thesis by (intro conjI) (elim conjE, assumption)+
qed

section \<open>Short forms and paths\<close>

lemma indexOf_from_takeWhile:
  "indexOf_from i s c =
     (if c \<in> set s then int (i + length (takeWhile (\<lambda>x. x \<noteq> c) s)) else - 1)"
  by (induction s arbitrary: i) auto

lemma takeWhile_length_take:
  "c \<in> set s \<Longrightarrow> n \<le> length (takeWhile (\<lambda>x. x \<noteq> c) s) \<longleftrightarrow> c \<notin> set (take n s)"
proof (induction s arbitrary: n)
  case Nil
  then show ?case by simp
next
  case (Cons a s)
  then show ?case by (cases n) auto
qed

lemma indexOf_beyond:
  "indexOf s c > 6 \<longleftrightarrow> c \<in> set s \<and> c \<notin> set (take 7 s)"
proof (cases "c \<in> set s")
  case True
  then have "indexOf s c = int (length (takeWhile (\<lambda>x. x \<noteq> c) s))"
    by (simp add: indexOf_def indexOf_from_takeWhile)
  moreover have "7 \<le> length (takeWhile (\<lambda>x. x \<noteq> c) s) \<longleftrightarrow> c \<notin> set (take 7 s)"
    using True by (rule takeWhile_length_take)
  ultimately show ?thesis using True by auto
next
  case False
  then show ?thesis by (simp add: indexOf_def indexOf_from_takeWhile)
qed

lemma drop_indexOf:
  "c \<in> set s \<Longrightarrow> drop (nat (indexOf s c)) s = dropWhile (\<lambda>x. x \<noteq> c) s"
  by (simp add: indexOf_def indexOf_from_takeWhile dropWhile_eq_drop)

text \<open>
  C5. \<open>shortenSha\<close> returns \<open>index\<close> for a staged-uncommitted id and the empty string for
  any other uncommitted id. For the rest, when the id has a caret and its first caret lies
  beyond position 6 (none among the first seven characters), the result is the first six
  characters followed by the whole suffix from that caret on; otherwise it is the first
  eight characters.
\<close>

theorem shortenSha_cases:
  "(isStagedUncommitted sha \<longrightarrow> shortenSha sha = ''index'')
   \<and> (\<not> isStagedUncommitted sha \<and> isUncommitted sha \<longrightarrow> shortenSha sha = '''')
   \<and> (\<not> isStagedUncommitted sha \<and> \<not> isUncommitted sha
        \<and> CHR ''^'' \<in> set sha \<and> CHR ''^'' \<notin> set (take 7 sha) \<longrightarrow>
          shortenSha sha = take 6 sha @ dropWhile (\<lambda>c. c \<noteq> CHR ''^'') sha)
   \<and> (\<not> isStagedUncommitted sha \<and> \<not> isUncommitted sha
        \<and> \<not> (CHR ''^'' \<in> set sha \<and> CHR ''^'' \<notin> set (take 7 sha)) \<longrightarrow>
          shortenSha sha = take 8 sha)"
proof (intro conjI impI)
  assume "isStagedUncommitted sha"
  then show "shortenSha sha = ''index''" by (simp add: shortenSha_def)
next
  assume "\<not> isStagedUncommitted sha \<and> isUncommitted sha"
  then show "shortenSha sha = ''''" by (simp add: shortenSha_def)
next
  assume a: "\<not> isStagedUncommitted sha \<and> \<not> isUncommitted sha
      \<and> CHR ''^'' \<in> set sha \<and> CHR ''^'' \<notin> set (take 7 sha)"
  then have "indexOf sha (CHR ''^'') > 6" by (simp add: indexOf_beyond)
  with a show "shortenSha sha = take 6 sha @ dropWhile (\<lambda>c. c \<noteq> CHR ''^'') sha"
    by (simp add: shortenSha_def Let_def substring2_def substring1_def drop_indexOf)
next
  assume a: "\<not> isStagedUncommitted sha \<and> \<not> isUncommitted sha
      \<and> \<not> (CHR ''^'' \<in> set sha \<and> CHR ''^'' \<notin> set (take 7 sha))"
  then have "\<not> indexOf sha (CHR ''^'') > 6" by (simp only: indexOf_beyond not_False_eq_True)
  with a show "shortenSha sha = take 8 sha"
    by (simp add: shortenSha_def Let_def substring2_def)
qed

theorem shortenSha_cases_witness:
  "shortenSha stagedUncommittedSha = ''index''
   \<and> shortenSha uncommittedSha = ''''
   \<and> shortenSha ''a1b2c3d4e5f60718293a4b5c6d7e8f9012345678^2'' = ''a1b2c3^2''
   \<and> shortenSha ''a1b2c3d4e5f60718293a4b5c6d7e8f9012345678'' = ''a1b2c3d4''"
proof -
  have 1: "isStagedUncommitted stagedUncommittedSha" by code_simp
  have 2: "\<not> isStagedUncommitted uncommittedSha \<and> isUncommitted uncommittedSha" by code_simp
  have 3: "\<not> isStagedUncommitted ''a1b2c3d4e5f60718293a4b5c6d7e8f9012345678^2''
      \<and> \<not> isUncommitted ''a1b2c3d4e5f60718293a4b5c6d7e8f9012345678^2''
      \<and> CHR ''^'' \<in> set ''a1b2c3d4e5f60718293a4b5c6d7e8f9012345678^2''
      \<and> CHR ''^'' \<notin> set (take 7 ''a1b2c3d4e5f60718293a4b5c6d7e8f9012345678^2'')"
    by code_simp
  have 4: "\<not> isStagedUncommitted ''a1b2c3d4e5f60718293a4b5c6d7e8f9012345678''
      \<and> \<not> isUncommitted ''a1b2c3d4e5f60718293a4b5c6d7e8f9012345678''
      \<and> \<not> (CHR ''^'' \<in> set ''a1b2c3d4e5f60718293a4b5c6d7e8f9012345678''
             \<and> CHR ''^'' \<notin> set (take 7 ''a1b2c3d4e5f60718293a4b5c6d7e8f9012345678''))"
    by code_simp
  have "shortenSha stagedUncommittedSha = ''index''"
    using 1 shortenSha_cases [of stagedUncommittedSha] by blast
  moreover have "shortenSha uncommittedSha = ''''"
    using 2 shortenSha_cases [of uncommittedSha] by blast
  moreover have "shortenSha ''a1b2c3d4e5f60718293a4b5c6d7e8f9012345678^2''
      = take 6 ''a1b2c3d4e5f60718293a4b5c6d7e8f9012345678^2''
        @ dropWhile (\<lambda>c. c \<noteq> CHR ''^'') ''a1b2c3d4e5f60718293a4b5c6d7e8f9012345678^2''"
    using 3 shortenSha_cases [of "''a1b2c3d4e5f60718293a4b5c6d7e8f9012345678^2''"] by blast
  moreover have "shortenSha ''a1b2c3d4e5f60718293a4b5c6d7e8f9012345678''
      = take 8 ''a1b2c3d4e5f60718293a4b5c6d7e8f9012345678''"
    using 4 shortenSha_cases [of "''a1b2c3d4e5f60718293a4b5c6d7e8f9012345678''"] by blast
  ultimately show ?thesis by simp
qed

lemma endsWith_slash:
  "endsWith r (map u ''/'') \<longleftrightarrow> r \<noteq> [] \<and> last r = u (CHR ''/'')"
proof (cases r rule: rev_cases)
  case Nil
  then show ?thesis by (simp add: endsWith_def)
next
  case (snoc ys y)
  then show ?thesis by (auto simp: endsWith_def)
qed

text \<open>
  With a root, \<open>splitPath_on\<close> cuts the normalized file name at the length of the
  lower-cased root, whatever \<open>lower\<close> is.
\<close>

lemma splitPath_on_root:
  assumes "root \<noteq> []"
  shows "splitPath_on u lower fileName (Some root) extract =
     (if startsWith (lower (normalizePath_on u fileName))
           (lower (if last (normalizePath_on u root) = u (CHR ''/'') then normalizePath_on u root
                   else normalizePath_on u root @ map u ''/''))
      then (drop (length (lower (if last (normalizePath_on u root) = u (CHR ''/'')
                                 then normalizePath_on u root
                                 else normalizePath_on u root @ map u ''/'')))
              (normalizePath_on u fileName),
            Some (normalizePath_on u root))
      else (normalizePath_on u fileName, Some (normalizePath_on u root)))"
proof -
  from assms obtain c cs where root: "root = c # cs" by (cases root) auto
  have ne: "normalizePath_on u (c # cs) \<noteq> []" by (simp add: normalizePath_on_def)
  have e: "endsWith (normalizePath_on u (c # cs)) (map u ''/'')
      \<longleftrightarrow> last (normalizePath_on u (c # cs)) = u (CHR ''/'')"
    using ne by (simp only: endsWith_slash simp_thms)
  show ?thesis
    unfolding root splitPath_on_def option.case list.case Let_def e substring1_def ..
qed

lemma startsWith_lower:
  "toLowerCase p = toLowerCase q \<Longrightarrow> startsWith (toLowerCase (p @ rest)) (toLowerCase q)"
proof -
  assume eq: "toLowerCase p = toLowerCase q"
  then have "length p = length q" unfolding toLowerCase_def by (rule map_eq_imp_length_eq)
  with eq show ?thesis by (simp add: startsWith_def toLowerCase_def)
qed

text \<open>
  On strings whose code units lie below 256, where lower-casing keeps the length: the two
  examples of the spec, and the general rule when a root is supplied. Both paths are
  normalized to forward slashes, the root is given a trailing slash unless it has one, and
  when the normalized file name begins with that root up to the case of letters, the result
  is what follows the prefix, together with the normalized root.
\<close>

lemma splitPath_examples:
  "splitPath ''/repo/src/a.ts'' (Some ''/repo'') True = (''src/a.ts'', Some ''/repo'')
   \<and> splitPath ''/a/b/c.ts'' None True = (''c.ts'', Some ''/a/b'')"
  by code_simp

lemma splitPath_strips_root:
  assumes "root \<noteq> []"
    and "normalizePath fileName = p @ rest"
    and "toLowerCase p =
            toLowerCase (if last (normalizePath root) = CHR ''/'' then normalizePath root
                         else normalizePath root @ ''/'')"
  shows "splitPath fileName (Some root) extract = (rest, Some (normalizePath root))"
proof -
  let ?r = "normalizePath root"
  let ?q = "if last ?r = CHR ''/'' then ?r else ?r @ ''/''"
  from assms(3) have "length (toLowerCase ?q) = length (toLowerCase p)" by (simp only:)
  then have len: "length (toLowerCase ?q) = length p" by (simp add: toLowerCase_def)
  from assms(3) have sw: "startsWith (toLowerCase (p @ rest)) (toLowerCase ?q)"
    by (rule startsWith_lower)
  have "splitPath fileName (Some root) extract =
      (if startsWith (toLowerCase (normalizePath fileName)) (toLowerCase ?q)
       then (drop (length (toLowerCase ?q)) (normalizePath fileName), Some ?r)
       else (normalizePath fileName, Some ?r))"
    using splitPath_on_root [OF assms(1), of "\<lambda>c. c" toLowerCase fileName "extract"]
    unfolding splitPath_def normalizePath_def by simp
  also have "\<dots> = (drop (length p) (p @ rest), Some ?r)"
    using sw len unfolding assms(2) by (simp only: if_True)
  finally show ?thesis by simp
qed

lemma splitPath_latin1:
  "splitPath [CHR 0x2F, CHR 0x52, CHR 0xC9, CHR 0x50, CHR 0x4F, CHR 0x2F, CHR 0x61]
     (Some [CHR 0x2F, CHR 0x72, CHR 0xE9, CHR 0x70, CHR 0x6F]) True
     = ([CHR 0x61], Some [CHR 0x2F, CHR 0x72, CHR 0xE9, CHR 0x70, CHR 0x6F])"
  by code_simp

text \<open>
  C7. The two examples of the spec hold (\<open>splitPath_examples\<close>), and on strings whose code
  units lie below 256 the root is stripped whatever the case of its letters
  (\<open>splitPath_strips_root\<close>). The code cuts the file name at the length of the lower-cased
  root, though, and lower-casing can lengthen a string: the capital I with a dot above,
  U+0130, becomes the letter i followed by the combining dot U+0307. With the root
  \<open>/\<close>U+0130 and the file \<open>/\<close>U+0130\<open>/a.ts\<close> the code cuts four code units where the root
  with its slash has three, and returns \<open>.ts\<close> where the claim says \<open>a.ts\<close>. The theorem
  runs the code on that input, with code units as natural numbers, for every \<open>lower\<close> that
  gives what \<^verbatim>\<open>toLowerCase\<close> gives on the two strings the code lower-cases.
\<close>

theorem splitPath_cuts_at_lowered_length:
  "lower (map of_char ''/'' @ [0x130] @ map of_char ''/'')
     = map of_char ''/i'' @ [0x307] @ map of_char ''/'' \<Longrightarrow>
   lower (map of_char ''/'' @ [0x130] @ map of_char ''/a.ts'')
     = map of_char ''/i'' @ [0x307] @ map of_char ''/a.ts'' \<Longrightarrow>
   splitPath_on of_char lower
       (map of_char ''/'' @ [0x130] @ map of_char ''/a.ts'')
       (Some (map of_char ''/'' @ [0x130 :: nat])) extract
     = (map of_char ''.ts'', Some (map of_char ''/'' @ [0x130]))"
proof -
  assume l1: "lower (map of_char ''/'' @ [0x130] @ map of_char ''/'')
      = map of_char ''/i'' @ [0x307] @ map of_char ''/''"
    and l2: "lower (map of_char ''/'' @ [0x130] @ map of_char ''/a.ts'')
      = map of_char ''/i'' @ [0x307] @ map of_char ''/a.ts''"
  have n1: "normalizePath_on of_char (map of_char ''/'' @ [0x130 :: nat])
      = map of_char ''/'' @ [0x130]"
    by (simp add: normalizePath_on_def)
  have n2: "normalizePath_on of_char (map of_char ''/'' @ [0x130 :: nat] @ map of_char ''/a.ts'')
      = map of_char ''/'' @ [0x130] @ map of_char ''/a.ts''"
    by (simp add: normalizePath_on_def)
  have ne: "map of_char ''/'' @ [0x130 :: nat] \<noteq> []" by simp
  have q: "(if last (map of_char ''/'' @ [0x130 :: nat]) = of_char (CHR ''/'')
            then map of_char ''/'' @ [0x130 :: nat]
            else (map of_char ''/'' @ [0x130 :: nat]) @ map of_char ''/'')
      = map of_char ''/'' @ [0x130] @ map of_char ''/''"
    by simp
  show ?thesis
    unfolding splitPath_on_root [OF ne] n1 n2 q l1 l2
    by (simp add: startsWith_def)
qed

theorem splitPath_cuts_at_lowered_length_witness:
  "splitPath_on of_char
       (\<lambda>s. concat (map (\<lambda>c. if c = 0x130 then [0x69, 0x307] else [c]) s))
       (map of_char ''/'' @ [0x130] @ map of_char ''/a.ts'')
       (Some (map of_char ''/'' @ [0x130 :: nat])) True
     = (map of_char ''.ts'', Some (map of_char ''/'' @ [0x130]))"
proof -
  let ?lower = "\<lambda>s :: nat list. concat (map (\<lambda>c. if c = 0x130 then [0x69, 0x307] else [c]) s)"
  have l1: "?lower (map of_char ''/'' @ [0x130] @ map of_char ''/'')
      = map of_char ''/i'' @ [0x307] @ map of_char ''/''"
    by simp
  have l2: "?lower (map of_char ''/'' @ [0x130] @ map of_char ''/a.ts'')
      = map of_char ''/i'' @ [0x307] @ map of_char ''/a.ts''"
    by simp
  show ?thesis
    using splitPath_cuts_at_lowered_length [of ?lower True, OF l1 l2] .
qed

section \<open>Command executor\<close>

lemma log_format_fields:
  "format_fields defaultLogParams =
     [''%H -'', ''author %an'', ''author-date %at'', ''parents %P'', ''summary %B'', ''filename ?'']"
  by code_simp

lemma stash_format_fields:
  "format_fields defaultStashParams =
     [''%H -'', ''author-date %at'', ''reflog-selector %gd'', ''summary %B'', ''filename ?'']"
  by code_simp

text \<open>
  C6, counterexample. Substituting \<open>reflog-selector %gd\<close> for \<open>parents %P\<close> in the fields of
  the log format does not give the fields of the stash format: the stash format has no
  \<open>author %an\<close> field.
\<close>

theorem stash_format_not_log_shape:
  "format_fields defaultStashParams \<noteq>
     substitute_field ''reflog-selector %gd'' ''parents %P'' (format_fields defaultLogParams)"
  unfolding log_format_fields stash_format_fields by (simp add: substitute_field_def)

text \<open>
  C6, as amended. The stash format is the log format with \<open>reflog-selector %gd\<close> in place of
  \<open>parents %P\<close> and without the \<open>author %an\<close> field; the other fields are the same, in the
  same order.
\<close>

theorem stash_format_shape:
  "format_fields defaultStashParams =
     substitute_field ''reflog-selector %gd'' ''parents %P''
       (remove1 ''author %an'' (format_fields defaultLogParams))"
  unfolding log_format_fields stash_format_fields by (simp add: substitute_field_def)

lemma test_literal: "test (Unanchored (Str p)) msg \<longleftrightarrow> occurs_in p msg"
  by (simp add: search_lang lang_Str occurs_in_def)

lemma lang_quoted:
  "lang (Seq (Str a) (Seq (Chr q) (Seq (Star Dot) (Seq (Chr q) (Str b)))))
     = {a @ q # p @ q # b | p. \<forall>c \<in> set p. \<not> line_terminator c}"
proof -
  have 1: "conc {[q]} {b} = {q # b}" by (auto simp: conc_def)
  have 2: "conc (star {[c] | c. \<not> line_terminator c}) {q # b}
      = {p @ q # b | p. \<forall>c \<in> set p. \<not> line_terminator c}"
    unfolding conc_def by (auto simp: star_of_chars)
  have 3: "conc {[q]} {p @ q # b | p. \<forall>c \<in> set p. \<not> line_terminator c}
      = {q # p @ q # b | p. \<forall>c \<in> set p. \<not> line_terminator c}"
    unfolding conc_def by auto
  have 4: "conc {a} {q # p @ q # b | p. \<forall>c \<in> set p. \<not> line_terminator c}
      = {a @ q # p @ q # b | p. \<forall>c \<in> set p. \<not> line_terminator c}"
    unfolding conc_def by auto
  show ?thesis
    unfolding lang.simps lang_Str 1 2 3 4 ..
qed

lemma test_quoted:
  "test (Unanchored (Seq (Str a) (Seq (Chr q) (Seq (Star Dot) (Seq (Chr q) (Str b)))))) msg
     \<longleftrightarrow> (\<exists>p. (\<forall>c \<in> set p. \<not> line_terminator c) \<and> occurs_in (a @ q # p @ q # b) msg)"
  unfolding test.simps search_lang lang_quoted occurs_in_def by blast

text \<open>What the seven patterns of \<open>GitWarnings\<close> accept, pattern by pattern.\<close>

lemma GitWarnings_iff:
  "list_ex (\<lambda>warning. test warning msg) GitWarnings \<longleftrightarrow>
     occurs_in ''Not a git repository'' msg
     \<or> occurs_in ''is outside repository'' msg
     \<or> occurs_in ''no such path'' msg
     \<or> occurs_in ''does not have any commits'' msg
     \<or> (\<exists>p. (\<forall>c \<in> set p. \<not> line_terminator c)
            \<and> occurs_in (''Path '' @ CHR 0x27 # p @ CHR 0x27 # '' does not exist in'') msg)
     \<or> (\<exists>p. (\<forall>c \<in> set p. \<not> line_terminator c)
            \<and> occurs_in (''Path '' @ CHR 0x27 # p @ CHR 0x27 # '' exists on disk, but not in'') msg)
     \<or> occurs_in ''no upstream configured for branch'' msg"
  unfolding GitWarnings_def pathDoesNotExistRegex_def pathExistsOnDiskRegex_def
    list_ex_Cons_iff list_ex_Nil_iff
    test_literal test_quoted
  by (simp only: simp_thms)

lemma no_warning_matches_empty: "\<not> list_ex (\<lambda>warning. test warning []) GitWarnings"
  by code_simp

lemma gitCommand_rethrows_or_empty:
  "willHandleErrors options \<noteq> Some True \<Longrightarrow>
   gitCommand options args (Inl ex) =
     (if \<exists>msg. exn_msg ex = Some msg \<and> list_ex (\<lambda>warning. test warning msg) GitWarnings
      then Inr '''' else Inl ex)"
proof -
  assume "willHandleErrors options \<noteq> Some True"
  then have g: "gitCommand options args (Inl ex) = gitCommandDefaultErrorHandler ex options args"
    by (simp add: gitCommand_def)
  show ?thesis
  proof (cases "exn_msg ex")
    case None
    then show ?thesis by (simp add: g gitCommandDefaultErrorHandler_def)
  next
    case (Some msg)
    show ?thesis
    proof (cases msg)
      case Nil
      with Some no_warning_matches_empty show ?thesis
        by (simp add: g gitCommandDefaultErrorHandler_def)
    next
      case (Cons c cs)
      with Some show ?thesis
        by (simp add: g gitCommandDefaultErrorHandler_def)
    qed
  qed
qed

text \<open>
  C4. When the caller has not set \<open>willHandleErrors\<close> and the call of git fails, the call
  resolves to the empty string if the text of the failure contains one of: \<open>Not a git
  repository\<close>, \<open>is outside repository\<close>, \<open>no such path\<close>, \<open>does not have any commits\<close>,
  \<open>Path '...' does not exist in\<close>, \<open>Path '...' exists on disk, but not in\<close> (the quoted
  path being any run of characters without a line terminator), \<open>no upstream configured for
  branch\<close>. It throws the failure it received otherwise.
\<close>

theorem gitCommand_failure:
  "willHandleErrors options \<noteq> Some True \<Longrightarrow>
   gitCommand options args (Inl ex) =
     (if \<exists>msg. exn_msg ex = Some msg \<and>
           (occurs_in ''Not a git repository'' msg
            \<or> occurs_in ''is outside repository'' msg
            \<or> occurs_in ''no such path'' msg
            \<or> occurs_in ''does not have any commits'' msg
            \<or> (\<exists>p. (\<forall>c \<in> set p. \<not> line_terminator c)
                   \<and> occurs_in (''Path '' @ CHR 0x27 # p @ CHR 0x27 # '' does not exist in'') msg)
            \<or> (\<exists>p. (\<forall>c \<in> set p. \<not> line_terminator c)
                   \<and> occurs_in
                       (''Path '' @ CHR 0x27 # p @ CHR 0x27 # '' exists on disk, but not in'') msg)
            \<or> occurs_in ''no upstream configured for branch'' msg)
      then Inr '''' else Inl ex)"
  unfolding GitWarnings_iff [symmetric] by (rule gitCommand_rethrows_or_empty)

theorem gitCommand_failure_witness:
  "(let options = \<lparr>cwd = Some ''/tmp'', env = None, encoding = None, stdin = None,
                    willHandleErrors = None\<rparr>;
        call = (\<lambda>text. gitCommand options [''status''] (Inl (ThrownError text)))
    in call ''Error: fatal: Not a git repository (or any of the parent directories): .git''
         = Inr ''''
     \<and> call ''Error: fatal: ../a.ts: ../a.ts is outside repository'' = Inr ''''
     \<and> call ''Error: fatal: no such path a.ts in HEAD'' = Inr ''''
     \<and> call ''Error: fatal: your current branch does not have any commits yet'' = Inr ''''
     \<and> call (''Error: fatal: Path '' @ CHR 0x27 # ''src/a.ts'' @ CHR 0x27
               # '' does not exist in HEAD'') = Inr ''''
     \<and> call (''Error: fatal: Path '' @ CHR 0x27 # ''src/a.ts'' @ CHR 0x27
               # '' exists on disk, but not in HEAD'') = Inr ''''
     \<and> call ''Error: fatal: no upstream configured for branch master'' = Inr ''''
     \<and> call ''Error: spawn git ENOENT'' = Inl (ThrownError ''Error: spawn git ENOENT''))"
proof -
  let ?o = "\<lparr>cwd = Some ''/tmp'', env = None, encoding = None, stdin = None,
               willHandleErrors = None\<rparr>"
  have h: "willHandleErrors ?o \<noteq> Some True" by simp
  note rule = gitCommand_failure [OF h, of "[''status'']", unfolded GitWarnings_iff [symmetric]]
  have 1: "list_ex (\<lambda>warning. test warning
      ''Error: fatal: Not a git repository (or any of the parent directories): .git'') GitWarnings"
    by code_simp
  have 2: "list_ex (\<lambda>warning. test warning
      ''Error: fatal: ../a.ts: ../a.ts is outside repository'') GitWarnings"
    by code_simp
  have 3: "list_ex (\<lambda>warning. test warning ''Error: fatal: no such path a.ts in HEAD'') GitWarnings"
    by code_simp
  have 4: "list_ex (\<lambda>warning. test warning
      ''Error: fatal: your current branch does not have any commits yet'') GitWarnings"
    by code_simp
  have 5: "list_ex (\<lambda>warning. test warning
      (''Error: fatal: Path '' @ CHR 0x27 # ''src/a.ts'' @ CHR 0x27 # '' does not exist in HEAD''))
      GitWarnings"
    by code_simp
  have 6: "list_ex (\<lambda>warning. test warning
      (''Error: fatal: Path '' @ CHR 0x27 # ''src/a.ts'' @ CHR 0x27
         # '' exists on disk, but not in HEAD'')) GitWarnings"
    by code_simp
  have 7: "list_ex (\<lambda>warning. test warning
      ''Error: fatal: no upstream configured for branch master'') GitWarnings"
    by code_simp
  have 8: "\<not> list_ex (\<lambda>warning. test warning ''Error: spawn git ENOENT'') GitWarnings"
    by code_simp
  show ?thesis
    unfolding Let_def
    using rule [of "ThrownError
        ''Error: fatal: Not a git repository (or any of the parent directories): .git''"]
      rule [of "ThrownError ''Error: fatal: ../a.ts: ../a.ts is outside repository''"]
      rule [of "ThrownError ''Error: fatal: no such path a.ts in HEAD''"]
      rule [of "ThrownError ''Error: fatal: your current branch does not have any commits yet''"]
      rule [of "ThrownError (''Error: fatal: Path '' @ CHR 0x27 # ''src/a.ts'' @ CHR 0x27
               # '' does not exist in HEAD'')"]
      rule [of "ThrownError (''Error: fatal: Path '' @ CHR 0x27 # ''src/a.ts'' @ CHR 0x27
               # '' exists on disk, but not in HEAD'')"]
      rule [of "ThrownError ''Error: fatal: no upstream configured for branch master''"]
      rule [of "ThrownError ''Error: spawn git ENOENT''"]
      1 2 3 4 5 6 7 8
    by simp
qed

lemma colon_not_uncommitted: "\<not> isUncommitted '':''"
  by code_simp

text \<open>
  C9. For an id that is uncommitted but not staged-uncommitted, \<open>show\<close> throws before any
  call of git. A staged-uncommitted id is replaced by the index revision \<open>:\<close>, and git is
  called with the argument \<open>:./file\<close>.
\<close>

theorem show_uncommitted:
  "(isUncommitted branchOrSha \<and> \<not> isStagedUncommitted branchOrSha \<longrightarrow>
      show_call repoPath fileName branchOrSha options_encoding =
        Throws (ThrownError (''Error: sha='' @ branchOrSha @ '' is uncommitted'')))
   \<and> (isStagedUncommitted branchOrSha \<longrightarrow>
      show_call repoPath fileName branchOrSha options_encoding =
        Invokes \<lparr>cwd = snd (splitPath fileName repoPath True), env = None,
                  encoding = Some (Some (case options_encoding of
                                     Some (c # cs) \<Rightarrow> c # cs | _ \<Rightarrow> ''utf8'')),
                  stdin = None, willHandleErrors = Some True\<rparr>
                [''show'', '':./'' @ fst (splitPath fileName repoPath True)])"
proof (intro conjI impI)
  assume "isUncommitted branchOrSha \<and> \<not> isStagedUncommitted branchOrSha"
  then show "show_call repoPath fileName branchOrSha options_encoding =
      Throws (ThrownError (''Error: sha='' @ branchOrSha @ '' is uncommitted''))"
    by (simp add: show_call_def split: prod.split)
next
  assume "isStagedUncommitted branchOrSha"
  moreover have "endsWith '':'' '':''" by (simp add: endsWith_def)
  ultimately show "show_call repoPath fileName branchOrSha options_encoding =
      Invokes \<lparr>cwd = snd (splitPath fileName repoPath True), env = None,
                encoding = Some (Some (case options_encoding of
                                   Some (c # cs) \<Rightarrow> c # cs | _ \<Rightarrow> ''utf8'')),
                stdin = None, willHandleErrors = Some True\<rparr>
              [''show'', '':./'' @ fst (splitPath fileName repoPath True)]"
    using colon_not_uncommitted by (simp add: show_call_def split: prod.split)
qed

theorem show_uncommitted_witness:
  "show_call (Some ''/repo'') ''/repo/src/a.ts'' uncommittedSha None =
     Throws (ThrownError (''Error: sha='' @ uncommittedSha @ '' is uncommitted''))
   \<and> show_call (Some ''/repo'') ''/repo/src/a.ts'' stagedUncommittedSha None =
     Invokes \<lparr>cwd = Some ''/repo'', env = None, encoding = Some (Some ''utf8''), stdin = None,
               willHandleErrors = Some True\<rparr> [''show'', '':./src/a.ts'']"
proof -
  have a: "isUncommitted uncommittedSha \<and> \<not> isStagedUncommitted uncommittedSha"
    by code_simp
  have b: "isStagedUncommitted stagedUncommittedSha" by code_simp
  have c: "splitPath ''/repo/src/a.ts'' (Some ''/repo'') True = (''src/a.ts'', Some ''/repo'')"
    by code_simp
  from a have "show_call (Some ''/repo'') ''/repo/src/a.ts'' uncommittedSha None =
      Throws (ThrownError (''Error: sha='' @ uncommittedSha @ '' is uncommitted''))"
    using show_uncommitted [of uncommittedSha "Some ''/repo''" "''/repo/src/a.ts''" None]
    by blast
  moreover from b have "show_call (Some ''/repo'') ''/repo/src/a.ts'' stagedUncommittedSha None =
      Invokes \<lparr>cwd = Some ''/repo'', env = None, encoding = Some (Some ''utf8''), stdin = None,
                willHandleErrors = Some True\<rparr> [''show'', '':./src/a.ts'']"
    using show_uncommitted [of stagedUncommittedSha "Some ''/repo''" "''/repo/src/a.ts''" None] c
    by simp
  ultimately show ?thesis by blast
qed

lemma call_registers_promise:
  "gitCommandCore_call ex options args = (ex', promise) \<Longrightarrow>
   pendingCommands ex' (command_key options args) = Some promise"
  by (auto simp: gitCommandCore_call_def Let_def split: option.splits)

lemma call_when_pending:
  "pendingCommands ex (command_key options args) = Some promise \<Longrightarrow>
   gitCommandCore_call ex options args = (ex, promise)"
  by (simp add: gitCommandCore_call_def Let_def)

lemma call_when_not_pending:
  "pendingCommands ex (command_key options args) = None \<Longrightarrow>
   length (spawned (fst (gitCommandCore_call ex options args))) = Suc (length (spawned ex))
   \<and> snd (gitCommandCore_call ex options args) = length (spawned ex)"
  by (simp add: gitCommandCore_call_def Let_def)

lemma resume_resolved_removes_key:
  "pendingCommands (fst (gitCommandCore_resume decode ex options args (Inr s)))
     (command_key options args) = None"
  by (simp add: gitCommandCore_resume_def)

lemma resume_undefined_encoding:
  "encoding options = Some None \<Longrightarrow>
   snd (gitCommandCore_resume decode ex options args (Inr s)) = decode s None"
  by (simp add: gitCommandCore_resume_def opts_encoding_def)

lemma resume_rejected_keeps_state:
  "gitCommandCore_resume decode ex options args (Inl e) = (ex, Inl e)"
  by (simp add: gitCommandCore_resume_def)

text \<open>
  C10. The key of a call is built from \<open>cwd\<close> and the arguments alone. A call made while
  another call with the same \<open>cwd\<close> and arguments is in flight, whatever its encoding,
  environment or standard input, awaits the promise of the first and spawns nothing.
\<close>

theorem command_key_cwd_args_only:
  "cwd options2 = cwd options1 \<Longrightarrow>
   command_key options2 args = command_key options1 args
   \<and> (case gitCommandCore_call ex options1 args of
         (ex1, promise1) \<Rightarrow>
           gitCommandCore_call ex1 options2 args = (ex1, promise1))"
proof -
  assume c: "cwd options2 = cwd options1"
  then have k: "command_key options2 args = command_key options1 args"
    by (simp add: command_key_def)
  obtain ex1 promise1 where r: "gitCommandCore_call ex options1 args = (ex1, promise1)"
    by (cases "gitCommandCore_call ex options1 args")
  then have "pendingCommands ex1 (command_key options2 args) = Some promise1"
    using call_registers_promise k by simp
  then have "gitCommandCore_call ex1 options2 args = (ex1, promise1)"
    by (rule call_when_pending)
  with k r show ?thesis by simp
qed

theorem command_key_cwd_args_only_witness:
  "command_key \<lparr>cwd = Some ''/repo'', env = Some [(''GIT_OPTIONAL_LOCKS'', ''0'')],
                 encoding = Some (Some ''latin1''), stdin = Some 7, willHandleErrors = Some True\<rparr>
       [''status'']
     = ''(/repo): git -c core.quotepath=false -c color.ui=false status''
   \<and> gitCommandCore_call
       \<lparr>git_path = ''git'', process_env = [], pendingCommands = Map.empty, spawned = []\<rparr>
       \<lparr>cwd = Some ''/repo'', env = None, encoding = None, stdin = None,
          willHandleErrors = None\<rparr> [''status'']
     = (\<lparr>git_path = ''git'', process_env = [],
          pendingCommands =
            [''(/repo): git -c core.quotepath=false -c color.ui=false status'' \<mapsto> 0],
          spawned = [\<lparr>spawn_path = ''git'',
                      spawn_args = [''-c'', ''core.quotepath=false'', ''-c'', ''color.ui=false'',
                                    ''status''],
                      spawn_options = \<lparr>spawn_cwd = Some ''/repo'',
                         spawn_env = [(''GCM_INTERACTIVE'', ''NEVER''),
                                      (''GCM_PRESERVE_CREDS'', ''TRUE'')],
                         spawn_encoding = ''utf8'', spawn_stdin = None\<rparr>\<rparr>]\<rparr>, 0)
   \<and> snd (gitCommandCore_call
       (fst (gitCommandCore_call
          \<lparr>git_path = ''git'', process_env = [], pendingCommands = Map.empty, spawned = []\<rparr>
          \<lparr>cwd = Some ''/repo'', env = None, encoding = None, stdin = None,
             willHandleErrors = None\<rparr> [''status'']))
       \<lparr>cwd = Some ''/repo'', env = Some [(''GIT_OPTIONAL_LOCKS'', ''0'')],
          encoding = Some (Some ''latin1''), stdin = Some 7, willHandleErrors = Some True\<rparr>
       [''status'']) = 0"
proof -
  let ?o1 = "\<lparr>cwd = Some ''/repo'', env = None, encoding = None, stdin = None,
                willHandleErrors = None\<rparr>"
  let ?o2 = "\<lparr>cwd = Some ''/repo'', env = Some [(''GIT_OPTIONAL_LOCKS'', ''0'')],
                encoding = Some (Some ''latin1''), stdin = Some 7, willHandleErrors = Some True\<rparr>"
  let ?ex = "\<lparr>git_path = ''git'', process_env = [], pendingCommands = Map.empty,
                spawned = []\<rparr>"
  have h: "cwd ?o2 = cwd ?o1" by simp
  have k1: "command_key ?o1 [''status'']
      = ''(/repo): git -c core.quotepath=false -c color.ui=false status''"
    by (simp add: command_key_def)
  have c1: "gitCommandCore_call ?ex ?o1 [''status'']
     = (\<lparr>git_path = ''git'', process_env = [],
          pendingCommands =
            [''(/repo): git -c core.quotepath=false -c color.ui=false status'' \<mapsto> 0],
          spawned = [\<lparr>spawn_path = ''git'',
                      spawn_args = [''-c'', ''core.quotepath=false'', ''-c'', ''color.ui=false'',
                                    ''status''],
                      spawn_options = \<lparr>spawn_cwd = Some ''/repo'',
                         spawn_env = [(''GCM_INTERACTIVE'', ''NEVER''),
                                      (''GCM_PRESERVE_CREDS'', ''TRUE'')],
                         spawn_encoding = ''utf8'', spawn_stdin = None\<rparr>\<rparr>]\<rparr>, 0)"
    by (simp add: gitCommandCore_call_def k1 obj_set_def opts_encoding_def)
  from command_key_cwd_args_only [OF h, of "[''status'']" ?ex]
  show ?thesis unfolding k1 c1 by simp
qed

text \<open>
  C2. While a command is in flight, a second call with the same key awaits the same promise
  and spawns nothing (\<open>call_registers_promise\<close>, \<open>call_when_pending\<close>), and when the
  promise resolves the key is removed, so the next call spawns again
  (\<open>resume_resolved_removes_key\<close>, \<open>call_when_not_pending\<close>). When the promise rejects,
  the \<^verbatim>\<open>await\<close> throws and \<^verbatim>\<open>pendingCommands.delete(command)\<close> is not reached: the key stays
  in the map, bound to the rejected promise, and the next call with that key awaits it
  instead of spawning. The theorem runs the code on one such sequence: a call, its failure,
  and the same call again.
\<close>

theorem rejected_command_stays_pending:
  "(let options = \<lparr>cwd = Some ''/repo'', env = None, encoding = None, stdin = None,
                     willHandleErrors = None\<rparr>;
        args = [''status''];
        ex0 = \<lparr>git_path = ''git'', process_env = [], pendingCommands = Map.empty,
                 spawned = []\<rparr>;
        (ex1, promise1) = gitCommandCore_call ex0 options args;
        (ex2, result) = gitCommandCore_resume (\<lambda>s e. Inr s) ex1 options args
                          (Inl (ThrownError ''Error: fatal: unable to read tree''));
        (ex3, promise3) = gitCommandCore_call ex2 options args
    in result = Inl (ThrownError ''Error: fatal: unable to read tree'')
       \<and> pendingCommands ex2 (command_key options args) = Some promise1
       \<and> promise3 = promise1
       \<and> length (spawned ex3) = 1)"
  by (simp add: gitCommandCore_call_def gitCommandCore_resume_def command_key_def
      obj_set_def opts_encoding_def)

section \<open>Repository state tracker\<close>

text \<open>
  C8. Let \<open>b\<close> be the value \<open>updateBlameability\<close> computes: the argument if one is given,
  \<open>tracked && !dirty\<close> otherwise. When the call is not forced and \<open>b\<close> is the stored value,
  the context is returned unchanged and no event is fired. In every other case \<open>b\<close> is
  stored, nothing else in the context changes, and exactly one event is fired, which carries
  \<open>b\<close>, the editor and the reason.
\<close>

theorem updateBlameability_fires_on_change:
  "(\<not> force \<and> blameable (state ctx) =
        (case arg of None \<Rightarrow> js_and (tracked (state ctx)) (\<not> dirty (state ctx)) | Some v \<Rightarrow> Some v)
      \<longrightarrow> updateBlameability reason arg force ctx = (ctx, []))
   \<and> (force \<or> blameable (state ctx) \<noteq>
        (case arg of None \<Rightarrow> js_and (tracked (state ctx)) (\<not> dirty (state ctx)) | Some v \<Rightarrow> Some v)
      \<longrightarrow> (\<exists>ev. updateBlameability reason arg force ctx =
                  (ctx\<lparr>state := (state ctx)\<lparr>blameable := ev_blameable ev\<rparr>\<rparr>, [ev])
               \<and> ev_blameable ev =
                   (case arg of None \<Rightarrow> js_and (tracked (state ctx)) (\<not> dirty (state ctx))
                    | Some v \<Rightarrow> Some v)
               \<and> ev_editor ev = editor ctx \<and> ev_reason ev = reason))"
  by (auto simp: updateBlameability_def Let_def)

theorem updateBlameability_fires_on_change_witness:
  "updateBlameability DocumentChanged None False
     \<lparr>editor = Some \<lparr>editor_id = 1, document_uri = ''a.ts''\<rparr>, repo = Some 1,
        repoDisposable = Some 1,
        state = \<lparr>blameable = Some True, dirty = False, tracked = Some True\<rparr>,
        uri = Some ''a.ts''\<rparr>
   = (\<lparr>editor = Some \<lparr>editor_id = 1, document_uri = ''a.ts''\<rparr>, repo = Some 1,
        repoDisposable = Some 1,
        state = \<lparr>blameable = Some True, dirty = False, tracked = Some True\<rparr>,
        uri = Some ''a.ts''\<rparr>, [])
   \<and> length (snd (updateBlameability DocumentChanged None False
     \<lparr>editor = Some \<lparr>editor_id = 1, document_uri = ''a.ts''\<rparr>, repo = Some 1,
        repoDisposable = Some 1,
        state = \<lparr>blameable = Some True, dirty = True, tracked = Some True\<rparr>,
        uri = Some ''a.ts''\<rparr>)) = 1
   \<and> blameable (state (fst (updateBlameability DocumentChanged None False
     \<lparr>editor = Some \<lparr>editor_id = 1, document_uri = ''a.ts''\<rparr>, repo = Some 1,
        repoDisposable = Some 1,
        state = \<lparr>blameable = Some True, dirty = True, tracked = Some True\<rparr>,
        uri = Some ''a.ts''\<rparr>))) = Some False"
proof -
  let ?clean = "\<lparr>editor = Some \<lparr>editor_id = 1, document_uri = ''a.ts''\<rparr>, repo = Some 1,
        repoDisposable = Some 1,
        state = \<lparr>blameable = Some True, dirty = False, tracked = Some True\<rparr>,
        uri = Some ''a.ts''\<rparr>"
  let ?dirty = "\<lparr>editor = Some \<lparr>editor_id = 1, document_uri = ''a.ts''\<rparr>, repo = Some 1,
        repoDisposable = Some 1,
        state = \<lparr>blameable = Some True, dirty = True, tracked = Some True\<rparr>,
        uri = Some ''a.ts''\<rparr>"
  have same: "\<not> False \<and> blameable (state ?clean) =
      (case None of None \<Rightarrow> js_and (tracked (state ?clean)) (\<not> dirty (state ?clean))
       | Some v \<Rightarrow> Some v)"
    by (simp add: js_and_def)
  have differs: "False \<or> blameable (state ?dirty) \<noteq>
      (case None of None \<Rightarrow> js_and (tracked (state ?dirty)) (\<not> dirty (state ?dirty))
       | Some v \<Rightarrow> Some v)"
    by (simp add: js_and_def)
  from same have 1: "updateBlameability DocumentChanged None False ?clean = (?clean, [])"
    using updateBlameability_fires_on_change [of False ?clean None DocumentChanged] by blast
  from differs obtain ev where
    ev: "updateBlameability DocumentChanged None False ?dirty =
           (?dirty\<lparr>state := (state ?dirty)\<lparr>blameable := ev_blameable ev\<rparr>\<rparr>, [ev])"
      "ev_blameable ev = (case None of
           None \<Rightarrow> js_and (tracked (state ?dirty)) (\<not> dirty (state ?dirty))
         | Some v \<Rightarrow> Some v)"
    using updateBlameability_fires_on_change [of False ?dirty None DocumentChanged] by blast
  from ev(2) have "ev_blameable ev = Some False" by (simp add: js_and_def)
  with ev(1) have 2: "length (snd (updateBlameability DocumentChanged None False ?dirty)) = 1"
    and 3: "blameable (state (fst (updateBlameability DocumentChanged None False ?dirty)))
              = Some False"
    by simp_all
  from 1 2 3 show ?thesis by blast
qed




















end
